theory Spec2Isabelle
  imports Complex_Main "HOL-Library.Word"
begin

section \<open>Weather station firmware: sampling, telemetry and connectivity\<close>

text \<open>
  A shallow embedding of the firmware's core: the wind accumulator shared by the sampling
  task and the telemetry task (data_sender.cpp), the derived quantities of a telemetry
  cycle (data_sender.cpp), the configuration store (nvs_handler.cpp) and the connectivity
  state machine (wifi_manager.cpp, web_interface.cpp).

  Conventions. Global variables of the firmware are fields of a state record that every
  operation takes and returns. What the hardware or a library answers (an ADC reading,
  whether the storage namespace opens, whether the access point starts, the link status
  at a given instant, whether a semaphore was taken, an HTTP status) is a parameter of the
  operation. An ADC reading is a 16-bit unsigned count. The \<open>int\<close>/\<open>long\<close> values computed
  from readings are modelled as \<open>int\<close>; they stay within 32 bits (proved below). The sample
  counter is a 32-bit word read as a signed number. \<open>unsigned long\<close> timestamps are
  \<open>32 word\<close>, so that \<open>millis() - start\<close> wraps as in the code. A \<open>float\<close> is an IEEE 754
  binary32 value and a \<open>double\<close> a binary64 value: every arithmetic operation rounds its
  exact result to the nearest value of the format, ties to even, and overflows to an
  infinity.
\<close>

subsection \<open>Integer helpers of the Arduino core\<close>

text \<open>C integer division truncates towards zero.\<close>

definition c_div :: "int \<Rightarrow> int \<Rightarrow> int" where
  "c_div a b = sgn a * sgn b * (\<bar>a\<bar> div \<bar>b\<bar>)"

text \<open>
  Modelled from the spec: \<open>map\<close> and \<open>constrain\<close> belong to the Arduino core, not to the
  repository. The spec describes them as a linear mapping from a raw range to an output
  range followed by a clamp; the definition below is the core's integer interpolation
  \<open>(x - in_min) * (out_max - out_min) / (in_max - in_min) + out_min\<close> in truncating integer
  arithmetic, which answers \<open>-1\<close> for an empty input range.
\<close>

definition map_range :: "int \<Rightarrow> int \<Rightarrow> int \<Rightarrow> int \<Rightarrow> int \<Rightarrow> int" where
  "map_range x in_min in_max out_min out_max =
     (let run = in_max - in_min in
      if run = 0 then - 1
      else let rise = out_max - out_min; delta = x - in_min
           in c_div (delta * rise) run + out_min)"

definition constrain :: "int \<Rightarrow> int \<Rightarrow> int \<Rightarrow> int" where
  "constrain x lo hi = (if x < lo then lo else if x > hi then hi else x)"

subsection \<open>Floating point values\<close>

text \<open>
  A floating point value: a real number, an infinity, or NaN. Zero carries no sign: every
  zero divisor this firmware can form is a positive zero (a literal, a count, or the exact
  cancellation \<open>t + 273.15\<close>), so a non-zero value divided by zero takes the sign of the
  dividend.
\<close>

datatype ieee = NaN | PInf | NInf | Fin real

definition isnan :: "ieee \<Rightarrow> bool" where
  "isnan d \<longleftrightarrow> d = NaN"

definition pow2 :: "int \<Rightarrow> real" where
  "pow2 k = (if 0 \<le> k then 2 ^ nat k else 1 / 2 ^ nat (- k))"

text \<open>Rounding to the nearest integer, a tie going to the even neighbour.\<close>

definition round_even :: "real \<Rightarrow> int" where
  "round_even z =
     (let f = \<lfloor>z\<rfloor>; d = z - of_int f
      in if d < 1 / 2 then f else if 1 / 2 < d then f + 1 else if even f then f else f + 1)"

text \<open>
  The binary exponent of a value in a format whose smallest normal exponent is \<open>emin\<close>
  (below it the values are subnormal and share the exponent \<open>emin\<close>), and the rounding of a
  real number to \<open>p\<close> significant bits at that exponent.
\<close>

definition fp_exponent :: "int \<Rightarrow> real \<Rightarrow> int" where
  "fp_exponent emin x = (if x = 0 then emin else max emin \<lfloor>log 2 \<bar>x\<bar>\<rfloor>)"

definition rnd :: "nat \<Rightarrow> int \<Rightarrow> real \<Rightarrow> real" where
  "rnd p emin x =
     (let q = pow2 (fp_exponent emin x - int p + 1)
      in of_int (round_even (x / q)) * q)"

text \<open>The value of the format nearest to \<open>x\<close>; beyond the largest exponent, an infinity.\<close>

definition fp_round :: "nat \<Rightarrow> int \<Rightarrow> int \<Rightarrow> real \<Rightarrow> ieee" where
  "fp_round p emin emax x =
     (let y = rnd p emin x
      in if pow2 (emax + 1) \<le> \<bar>y\<bar> then (if 0 < y then PInf else NInf) else Fin y)"

definition f32 :: "real \<Rightarrow> ieee" where
  "f32 x = fp_round 24 (- 126) 127 x"

definition f64 :: "real \<Rightarrow> ieee" where
  "f64 x = fp_round 53 (- 1022) 1023 x"

text \<open>
  The arithmetic operations; \<open>r\<close> is the rounding of the format the operation is carried
  out in (\<open>f32\<close> for \<open>float\<close> operands, \<open>f64\<close> once one operand is a \<open>double\<close>).
\<close>

fun fadd :: "(real \<Rightarrow> ieee) \<Rightarrow> ieee \<Rightarrow> ieee \<Rightarrow> ieee" where
  "fadd r NaN _ = NaN"
| "fadd r _ NaN = NaN"
| "fadd r (Fin a) (Fin b) = r (a + b)"
| "fadd r PInf NInf = NaN"
| "fadd r NInf PInf = NaN"
| "fadd r PInf _ = PInf"
| "fadd r _ PInf = PInf"
| "fadd r NInf _ = NInf"
| "fadd r _ NInf = NInf"

fun fmul :: "(real \<Rightarrow> ieee) \<Rightarrow> ieee \<Rightarrow> ieee \<Rightarrow> ieee" where
  "fmul r NaN _ = NaN"
| "fmul r _ NaN = NaN"
| "fmul r (Fin a) (Fin b) = r (a * b)"
| "fmul r (Fin a) PInf = (if a = 0 then NaN else if 0 < a then PInf else NInf)"
| "fmul r (Fin a) NInf = (if a = 0 then NaN else if 0 < a then NInf else PInf)"
| "fmul r PInf (Fin b) = (if b = 0 then NaN else if 0 < b then PInf else NInf)"
| "fmul r NInf (Fin b) = (if b = 0 then NaN else if 0 < b then NInf else PInf)"
| "fmul r PInf PInf = PInf"
| "fmul r PInf NInf = NInf"
| "fmul r NInf PInf = NInf"
| "fmul r NInf NInf = PInf"

fun fdiv :: "(real \<Rightarrow> ieee) \<Rightarrow> ieee \<Rightarrow> ieee \<Rightarrow> ieee" where
  "fdiv r NaN _ = NaN"
| "fdiv r _ NaN = NaN"
| "fdiv r (Fin a) (Fin b) =
     (if b = 0 then (if a = 0 then NaN else if 0 < a then PInf else NInf)
      else r (a / b))"
| "fdiv r (Fin a) PInf = Fin 0"
| "fdiv r (Fin a) NInf = Fin 0"
| "fdiv r PInf (Fin b) = (if 0 \<le> b then PInf else NInf)"
| "fdiv r NInf (Fin b) = (if 0 \<le> b then NInf else PInf)"
| "fdiv r PInf _ = NaN"
| "fdiv r NInf _ = NaN"

fun fneg :: "ieee \<Rightarrow> ieee" where
  "fneg NaN = NaN"
| "fneg PInf = NInf"
| "fneg NInf = PInf"
| "fneg (Fin a) = Fin (- a)"

text \<open>
  \<open>std::exp\<close> belongs to the C library. It is taken at the correctly rounded value of the
  exponential, which fixes what the C standard fixes (\<open>exp(0) = 1\<close>, overflow to infinity,
  underflow to zero, NaN for NaN).
\<close>

fun dexp :: "ieee \<Rightarrow> ieee" where
  "dexp NaN = NaN"
| "dexp PInf = PInf"
| "dexp NInf = Fin 0"
| "dexp (Fin a) = f64 (exp a)"

text \<open>C's \<open>round\<close>: to the nearest integer, halfway cases away from zero.\<close>

definition c_round :: "real \<Rightarrow> real" where
  "c_round x = (if 0 \<le> x then of_int \<lfloor>x + 1 / 2\<rfloor> else of_int \<lceil>x - 1 / 2\<rceil>)"

fun dround :: "ieee \<Rightarrow> ieee" where
  "dround (Fin a) = Fin (c_round a)"
| "dround d = d"

subsection \<open>The shared wind accumulator (data_sender.cpp)\<close>

text \<open>
  \<open>volatile float totalWindSpeedSum\<close> and \<open>volatile int windReadingCount\<close>. The counter is
  incremented as the 32-bit machine does it and read as a signed number.
\<close>

record wind_acc =
  totalWindSpeedSum :: ieee
  windReadingCount :: "32 word"

definition wind_init :: wind_acc where
  "wind_init = \<lparr>totalWindSpeedSum = Fin 0, windReadingCount = 0\<rparr>"

text \<open>
  The sample computed by the sampling task from the raw ADC value, in m/s: the clamped
  \<open>long\<close> is converted to \<open>float\<close> and divided by \<open>100.0F\<close>.
\<close>

definition currentWindSpeedms :: "int \<Rightarrow> ieee" where
  "currentWindSpeedms windSpeedAnalog =
     fdiv f32 (f32 (real_of_int (constrain (map_range windSpeedAnalog 0 1023 0 3240) 0 3240)))
       (Fin 100)"

text \<open>The critical section of \<open>windSensorTaskFunction\<close>: one sample is added.\<close>

definition record_sample :: "ieee \<Rightarrow> wind_acc \<Rightarrow> wind_acc" where
  "record_sample x a =
     a\<lparr>totalWindSpeedSum := fadd f32 (totalWindSpeedSum a) x,
       windReadingCount := windReadingCount a + 1\<rparr>"

text \<open>
  One iteration of the sampling loop; \<open>took\<close> is what \<open>xSemaphoreTake\<close> answered. When the
  semaphore was not taken the sample is logged as lost and the accumulator is unchanged.
\<close>

definition windSensorTask_step :: "bool \<Rightarrow> 16 word \<Rightarrow> wind_acc \<Rightarrow> wind_acc" where
  "windSensorTask_step took reading a =
     (if took then record_sample (currentWindSpeedms (uint reading)) a else a)"

text \<open>
  The critical section of \<open>sensorTaskFunction\<close>: the average is read and both fields are
  reset. The division is a \<open>float\<close> division by the count converted to \<open>float\<close>. The result
  is the pair of the average and the accumulator afterwards.
\<close>

definition drainAverage :: "wind_acc \<Rightarrow> ieee \<times> wind_acc" where
  "drainAverage a =
     (let averageWindSpeed =
            (if 0 < sint (windReadingCount a)
             then fdiv f32 (totalWindSpeedSum a) (f32 (real_of_int (sint (windReadingCount a))))
             else Fin 0)
      in (averageWindSpeed, a\<lparr>totalWindSpeedSum := Fin 0, windReadingCount := 0\<rparr>))"

text \<open>Any interleaving of the two critical sections is a list of operations.\<close>

datatype wind_op = Record ieee | Drain

fun run_wind :: "wind_acc \<Rightarrow> wind_op list \<Rightarrow> ieee list \<times> wind_acc" where
  "run_wind a [] = ([], a)"
| "run_wind a (Record x # ops) = run_wind (record_sample x a) ops"
| "run_wind a (Drain # ops) =
     (let (avg, a') = drainAverage a; (outs, a'') = run_wind a' ops
      in (avg # outs, a''))"

text \<open>The spec's words: the arithmetic mean of a list of samples, 0.0 when there is none.\<close>

definition mean :: "real list \<Rightarrow> real" where
  "mean xs = (if xs = [] then 0 else sum_list xs / real (length xs))"

text \<open>
  What a drain answers for the samples recorded since the previous drain: their sum,
  accumulated in single precision in the order of recording, divided in single precision
  by their number; 0.0 when there is none. \<open>pending\<close> holds those samples.
\<close>

definition float_mean :: "ieee list \<Rightarrow> ieee" where
  "float_mean xs =
     (if xs = [] then Fin 0
      else fdiv f32 (foldl (fadd f32) (Fin 0) xs) (f32 (real (length xs))))"

fun spec_drains :: "ieee list \<Rightarrow> wind_op list \<Rightarrow> ieee list" where
  "spec_drains pending [] = []"
| "spec_drains pending (Record x # ops) = spec_drains (pending @ [x]) ops"
| "spec_drains pending (Drain # ops) = float_mean pending # spec_drains [] ops"

definition holds_pending :: "wind_acc \<Rightarrow> ieee list \<Rightarrow> bool" where
  "holds_pending a pending \<longleftrightarrow>
     totalWindSpeedSum a = foldl (fadd f32) (Fin 0) pending
     \<and> windReadingCount a = of_nat (length pending)"

subsection \<open>Pressure reduced to mean sea level (data_sender.cpp)\<close>

text \<open>The constants are \<open>double\<close> literals: the binary64 values nearest to the decimals.\<close>

definition G_CONST :: ieee where
  "G_CONST = f64 (980665 / 100000)"

definition MOLAR_MASS_AIR :: ieee where
  "MOLAR_MASS_AIR = f64 (289644 / 10000000)"

definition UNIV_GAS_CONST :: ieee where
  "UNIV_GAS_CONST = f64 (831447 / 100000)"

definition STATION_ALTITUDE_METERS :: ieee where
  "STATION_ALTITUDE_METERS = Fin 262"

definition KELVIN_OFFSET :: ieee where
  "KELVIN_OFFSET = f64 (27315 / 100)"

definition reduceToMSL :: "ieee \<Rightarrow> ieee \<Rightarrow> ieee \<Rightarrow> ieee" where
  "reduceToMSL station_pressure_hpa station_temperature_c station_altitude_m =
     (if isnan station_pressure_hpa \<or> isnan station_temperature_c then NaN
      else
        let station_temperature_k = fadd f64 station_temperature_c KELVIN_OFFSET;
            station_pressure_pa = fmul f64 station_pressure_hpa (Fin 100);
            exponent = fdiv f64 (fmul f64 (fmul f64 G_CONST MOLAR_MASS_AIR) station_altitude_m)
                                (fmul f64 UNIV_GAS_CONST station_temperature_k);
            pressure_msl_pa = fmul f64 station_pressure_pa (dexp exponent);
            pressure_msl_hpa = fdiv f64 pressure_msl_pa (Fin 100)
        in pressure_msl_hpa)"

text \<open>
  The barometric formula in the spec's words, over the real numbers, with the constants as
  the decimals written in the source. The result of \<open>reduceToMSL\<close> is compared with it.
\<close>

definition barometric :: "real \<Rightarrow> real \<Rightarrow> real \<Rightarrow> real" where
  "barometric p t h =
     p * exp ((980665 / 100000) * (289644 / 10000000) * h
              / ((831447 / 100000) * (t + 27315 / 100)))"

subsection \<open>Sensor mappings of the telemetry cycle (config.h, data_sender.cpp)\<close>

definition DARK_THRESHOLD :: int where
  "DARK_THRESHOLD = 500"

definition BRIGHT_THRESHOLD :: int where
  "BRIGHT_THRESHOLD = 3000"

definition WET_THRESHOLD :: int where
  "WET_THRESHOLD = 500"

definition DRY_THRESHOLD :: int where
  "DRY_THRESHOLD = 4000"

definition PHOTORESISTOR_PIN :: nat where
  "PHOTORESISTOR_PIN = 1"

definition RAIN_SENSOR_ANALOG_PIN :: nat where
  "RAIN_SENSOR_ANALOG_PIN = 2"

definition precipitationPercentage :: "int \<Rightarrow> int" where
  "precipitationPercentage rawRainAnalog =
     constrain (map_range rawRainAnalog WET_THRESHOLD DRY_THRESHOLD 100 0) 0 100"

definition brightnessPercentage :: "int \<Rightarrow> int" where
  "brightnessPercentage analogValue =
     constrain (map_range analogValue BRIGHT_THRESHOLD DARK_THRESHOLD 100 0) 0 100"

text \<open>A value fits a 32-bit \<open>long\<close>.\<close>

definition fits_long :: "int \<Rightarrow> bool" where
  "fits_long x \<longleftrightarrow> - (2 ^ 31) \<le> x \<and> x < 2 ^ 31"

subsection \<open>The telemetry record (data_sender.cpp)\<close>

text \<open>
  The JSON document of one cycle, as the list of its members in the order the code sets
  them. A key the code does not set is not in the list; \<open>JNull\<close> is the member the code
  sets to \<open>nullptr\<close>.
\<close>

datatype json = JNull | JInt int | JNum ieee

type_synonym payload = "(string \<times> json) list"

text \<open>\<open>round(x * scale) / scale\<close>, in \<open>double\<close>.\<close>

definition round_places :: "real \<Rightarrow> ieee \<Rightarrow> ieee" where
  "round_places scale x = fdiv f64 (dround (fmul f64 x (Fin scale))) (Fin scale)"

definition telemetry_payload ::
  "ieee \<Rightarrow> ieee \<Rightarrow> ieee \<Rightarrow> int \<Rightarrow> ieee \<Rightarrow> int \<Rightarrow> payload" where
  "telemetry_payload temp pressure humidity analogValue averageWindSpeed precipitation =
     (if \<not> isnan temp then [(''temperature'', JNum (round_places 100 temp))] else []) @
     (let normalized_pressure = reduceToMSL pressure temp STATION_ALTITUDE_METERS in
      if \<not> isnan normalized_pressure
      then [(''pressure'', JNum (round_places 100 normalized_pressure))]
      else if \<not> isnan pressure then [(''pressure'', JNum (round_places 100 pressure))]
      else []) @
     (if \<not> isnan humidity then [(''humidity'', JNum (round_places 10000 humidity))] else []) @
     [(''sunshine'',
        if analogValue \<noteq> - 1 then JInt (brightnessPercentage analogValue) else JNull),
      (''wind_speed'',
        JNum (round_places 100 (fmul f64 averageWindSpeed (f64 (36 / 10))))),
      (''precipitation'', JNum (round_places 10000 (Fin (real_of_int precipitation))))]"

subsection \<open>Global state of the firmware (config.h, main.cpp)\<close>

datatype DeviceMode = MODE_UNCONFIGURED | MODE_CONFIGURED

text \<open>
  The key-value storage behind \<open>Preferences\<close>: a key holds an unsigned integer or a
  string. The library itself is not part of the repository; only reading with a default,
  writing and removing a key are used.
\<close>

datatype nvs_val = NvsUInt nat | NvsStr string

type_synonym nvs_store = "string \<rightharpoonup> nvs_val"

datatype radio_role = RADIO_OFF | RADIO_AP | RADIO_STA

record sys =
  wifiSSID :: string
  wifiPass :: string
  userName :: string
  serverAddress :: string
  currentDeviceMode :: DeviceMode
  lastDataSendTime :: "32 word"
  bmeSensorOk :: bool
  wind :: wind_acc
  nvs :: nvs_store
  clock :: "32 word"
  radio :: radio_role
  portal :: bool

text \<open>The variables as main.cpp initialises them, over an empty storage.\<close>

definition boot_state :: sys where
  "boot_state =
     \<lparr>wifiSSID = '''', wifiPass = '''', userName = ''defaultUser'',
      serverAddress = ''192.168.50.200:5000'', currentDeviceMode = MODE_UNCONFIGURED,
      lastDataSendTime = 0, bmeSensorOk = False, wind = wind_init, nvs = Map.empty,
      clock = 0, radio = RADIO_OFF, portal = False\<rparr>"

text \<open>
  \<open>clock\<close> is what \<open>millis()\<close> answers. Only the explicit \<open>delay\<close> calls advance it; the
  time spent in other calls is not modelled.
\<close>

definition delay :: "32 word \<Rightarrow> sys \<Rightarrow> sys" where
  "delay ms s = s\<lparr>clock := clock s + ms\<rparr>"

text \<open>\<open>blinkLedError\<close> (utils.cpp): three times 150 ms on and 150 ms off.\<close>

definition blinkLedError :: "sys \<Rightarrow> sys" where
  "blinkLedError s = delay 900 s"

subsection \<open>One telemetry cycle (data_sender.cpp)\<close>

text \<open>
  What the environment answers during one cycle of \<open>sensorTaskFunction\<close>. The two ADC
  readings are unsigned counts; the three sensor readings are \<open>float\<close> values.
\<close>

record cycle_env =
  wifi_connected :: bool
  macAddress :: string
  rain_reading :: "16 word"
  mutex_taken :: bool
  bme_temperature :: ieee
  bme_pressure :: ieee
  bme_humidity :: ieee
  photo_reading :: "16 word"
  httpResponseCode :: int
  wifi_connected_after :: bool

datatype led = Green | Black

text \<open>
  What a cycle does to the outside, in order. Of the serial output only the message of a
  skipped cycle is kept. The POST carries the server address and the MAC address the
  endpoint is built from, and the JSON document.
\<close>

datatype action =
    AnalogRead nat
  | SemaphoreTake
  | SemaphoreGive
  | BmeRead
  | HttpPost string string payload
  | SetLedColor led
  | BlinkLedError led
  | SerialPrintln string

definition skip_message :: string where
  "skip_message = ''Sensor Task: Skipping data send (not configured or not connected to WiFi).''"

text \<open>Pressure and humidity are divided by \<open>100.0F\<close> in single precision.\<close>

definition bme_readings :: "cycle_env \<Rightarrow> sys \<Rightarrow> ieee \<times> ieee \<times> ieee" where
  "bme_readings e s =
     (if bmeSensorOk s
      then (bme_temperature e, fdiv f32 (bme_pressure e) (Fin 100),
            fdiv f32 (bme_humidity e) (Fin 100))
      else (NaN, NaN, NaN))"

definition send_outcome :: "cycle_env \<Rightarrow> action list" where
  "send_outcome e =
     (if 0 < httpResponseCode e then
        (if 200 \<le> httpResponseCode e \<and> httpResponseCode e < 300 \<and> wifi_connected_after e
         then [SetLedColor Green]
         else if wifi_connected_after e then [BlinkLedError Green] else [])
      else
        (if wifi_connected_after e then [BlinkLedError Green] else [BlinkLedError Black]))"

definition sensorTask_cycle :: "cycle_env \<Rightarrow> sys \<Rightarrow> action list \<times> sys" where
  "sensorTask_cycle e s =
     (if currentDeviceMode s = MODE_CONFIGURED \<and> wifi_connected e then
        let precipitation = precipitationPercentage (uint (rain_reading e));
            (averageWindSpeed, wind') =
              (if mutex_taken e then drainAverage (wind s) else (Fin 0, wind s));
            (temp, pressure, humidity) = bme_readings e s;
            analogValue = uint (photo_reading e);
            jsonDocument =
              telemetry_payload temp pressure humidity analogValue averageWindSpeed precipitation
        in ([AnalogRead RAIN_SENSOR_ANALOG_PIN, SemaphoreTake]
              @ (if mutex_taken e then [SemaphoreGive] else [])
              @ (if bmeSensorOk s then [BmeRead] else [])
              @ [AnalogRead PHOTORESISTOR_PIN,
                 HttpPost (serverAddress s) (macAddress e) jsonDocument]
              @ send_outcome e,
            s\<lparr>wind := wind'\<rparr>)
      else ([SerialPrintln skip_message], s))"

subsection \<open>The configuration store (nvs_handler.cpp)\<close>

definition NVS_KEY_SSID :: string where
  "NVS_KEY_SSID = ''wifi_ssid''"

definition NVS_KEY_PASS :: string where
  "NVS_KEY_PASS = ''wifi_pass''"

definition NVS_KEY_USER :: string where
  "NVS_KEY_USER = ''username''"

definition NVS_KEY_SERVER :: string where
  "NVS_KEY_SERVER = ''server_addr''"

definition NVS_KEY_MODE :: string where
  "NVS_KEY_MODE = ''device_mode''"

definition getUInt :: "nvs_store \<Rightarrow> string \<Rightarrow> nat \<Rightarrow> nat" where
  "getUInt st key dflt = (case st key of Some (NvsUInt n) \<Rightarrow> n | _ \<Rightarrow> dflt)"

definition getString :: "nvs_store \<Rightarrow> string \<Rightarrow> string \<Rightarrow> string" where
  "getString st key dflt = (case st key of Some (NvsStr v) \<Rightarrow> v | _ \<Rightarrow> dflt)"

text \<open>
  The cast \<open>(DeviceMode)preferences.getUInt(...)\<close>. The firmware only ever stores 0 or 1;
  any other number compares unequal to \<open>MODE_CONFIGURED\<close>.
\<close>

definition DeviceMode_of_uint :: "nat \<Rightarrow> DeviceMode" where
  "DeviceMode_of_uint n = (if n = 1 then MODE_CONFIGURED else MODE_UNCONFIGURED)"

definition uint_of_DeviceMode :: "DeviceMode \<Rightarrow> nat" where
  "uint_of_DeviceMode m = (case m of MODE_UNCONFIGURED \<Rightarrow> 0 | MODE_CONFIGURED \<Rightarrow> 1)"

text \<open>
  In the operations below \<open>opened\<close> is what \<open>preferences.begin\<close> answered; each of
  them gives up at once when the namespace did not open.
\<close>

definition initNVS :: "bool \<Rightarrow> sys \<Rightarrow> bool \<times> sys" where
  "initNVS opened s =
     (if \<not> opened then (False, s)
      else (True,
            if nvs s NVS_KEY_MODE = None
            then s\<lparr>nvs := (nvs s)(NVS_KEY_MODE \<mapsto> NvsUInt (uint_of_DeviceMode MODE_UNCONFIGURED))\<rparr>
            else s))"

definition loadConfigurationFromNVS :: "bool \<Rightarrow> sys \<Rightarrow> bool \<times> sys" where
  "loadConfigurationFromNVS opened s =
     (if \<not> opened then (False, s)
      else
        let s1 = s\<lparr>currentDeviceMode :=
                     DeviceMode_of_uint
                       (getUInt (nvs s) NVS_KEY_MODE (uint_of_DeviceMode MODE_UNCONFIGURED))\<rparr>
        in if currentDeviceMode s1 = MODE_CONFIGURED then
             let s2 = s1\<lparr>wifiSSID := getString (nvs s) NVS_KEY_SSID '''',
                         wifiPass := getString (nvs s) NVS_KEY_PASS '''',
                         userName := getString (nvs s) NVS_KEY_USER ''defaultUser'',
                         serverAddress := getString (nvs s) NVS_KEY_SERVER ''192.168.50.23:5000''\<rparr>
             in if 0 < length (wifiSSID s2) then (True, s2) else (False, s2)
           else (False, s1))"

definition saveConfigurationToNVS :: "bool \<Rightarrow> sys \<Rightarrow> sys" where
  "saveConfigurationToNVS opened s =
     (if \<not> opened then s
      else s\<lparr>nvs := (nvs s)
                 (NVS_KEY_SSID \<mapsto> NvsStr (wifiSSID s),
                  NVS_KEY_PASS \<mapsto> NvsStr (wifiPass s),
                  NVS_KEY_USER \<mapsto> NvsStr (userName s),
                  NVS_KEY_SERVER \<mapsto> NvsStr (serverAddress s),
                  NVS_KEY_MODE \<mapsto> NvsUInt (uint_of_DeviceMode MODE_CONFIGURED)),
             currentDeviceMode := MODE_CONFIGURED\<rparr>)"

definition clearConfigurationInNVS :: "bool \<Rightarrow> sys \<Rightarrow> sys" where
  "clearConfigurationInNVS opened s =
     (if \<not> opened then s
      else s\<lparr>nvs := ((nvs s)(NVS_KEY_MODE \<mapsto> NvsUInt (uint_of_DeviceMode MODE_UNCONFIGURED)))
                 (NVS_KEY_SSID := None, NVS_KEY_PASS := None,
                  NVS_KEY_USER := None, NVS_KEY_SERVER := None),
             currentDeviceMode := MODE_UNCONFIGURED,
             wifiSSID := '''',
             wifiPass := ''''\<rparr>)"

subsection \<open>Connectivity (wifi_manager.cpp, web_interface.cpp, main.cpp, utils.cpp)\<close>

text \<open>
  \<open>link t\<close> tells whether \<open>WiFi.status()\<close> answers \<open>WL_CONNECTED\<close> when asked at instant
  \<open>t\<close>. The two polling loops ask, wait 250 ms and ask again while their timeout, measured
  by the wrapping difference \<open>millis() - start\<close>, has not run out. Each answers the instant
  at which it stops.
\<close>

function connect_wait :: "(32 word \<Rightarrow> bool) \<Rightarrow> 32 word \<Rightarrow> 32 word \<Rightarrow> 32 word" where
  "connect_wait link start now =
     (if \<not> link now \<and> now - start < 15000 then connect_wait link start (now + 250) else now)"
  by pat_completeness auto
termination
proof (relation "measure (\<lambda>(link, start, now). 15000 - unat (now - start))")
  show "wf (measure (\<lambda>(link, start, now). 15000 - unat (now - start)))"
    by simp
next
  fix link :: "32 word \<Rightarrow> bool" and start now :: "32 word"
  assume "\<not> link now \<and> now - start < 15000"
  then have small: "unat (now - start) < 15000"
    by (simp add: word_less_nat_alt)
  have eq: "now + 250 - start = (now - start) + 250"
    by simp
  have "unat ((now - start) + 250) = (unat (now - start) + unat (250 :: 32 word)) mod 2 ^ 32"
    by (simp only: unat_word_ariths len_of_numeral_defs) simp
  with small have "unat (now + 250 - start) = unat (now - start) + 250"
    unfolding eq by simp
  with small show "((link, start, now + 250), (link, start, now))
      \<in> measure (\<lambda>(link, start, now). 15000 - unat (now - start))"
    by simp
qed

function reconnect_wait :: "(32 word \<Rightarrow> bool) \<Rightarrow> 32 word \<Rightarrow> 32 word \<Rightarrow> 32 word" where
  "reconnect_wait link start now =
     (if \<not> link now \<and> now - start < 10000 then reconnect_wait link start (now + 250) else now)"
  by pat_completeness auto
termination
proof (relation "measure (\<lambda>(link, start, now). 10000 - unat (now - start))")
  show "wf (measure (\<lambda>(link, start, now). 10000 - unat (now - start)))"
    by simp
next
  fix link :: "32 word \<Rightarrow> bool" and start now :: "32 word"
  assume "\<not> link now \<and> now - start < 10000"
  then have small: "unat (now - start) < 10000"
    by (simp add: word_less_nat_alt)
  have eq: "now + 250 - start = (now - start) + 250"
    by simp
  have "unat ((now - start) + 250) = (unat (now - start) + unat (250 :: 32 word)) mod 2 ^ 32"
    by (simp only: unat_word_ariths len_of_numeral_defs) simp
  with small have "unat (now + 250 - start) = unat (now - start) + 250"
    unfolding eq by simp
  with small show "((link, start, now + 250), (link, start, now))
      \<in> measure (\<lambda>(link, start, now). 10000 - unat (now - start))"
    by simp
qed

declare connect_wait.simps [simp del]
declare reconnect_wait.simps [simp del]

text \<open>
  An operation either goes on with a new state or ends in \<open>ESP.restart()\<close>; the restart
  loses the variables and keeps the storage.
\<close>

datatype 'a outcome = Restart nvs_store | Continue 'a

definition connectToWiFi :: "(32 word \<Rightarrow> bool) \<Rightarrow> sys \<Rightarrow> bool \<times> sys" where
  "connectToWiFi link s =
     (let s1 = s\<lparr>radio := RADIO_STA\<rparr>;
          start = clock s1;
          s2 = s1\<lparr>clock := connect_wait link start start\<rparr>
      in if link (clock s2)
         then (True, s2\<lparr>lastDataSendTime := clock s2, currentDeviceMode := MODE_CONFIGURED\<rparr>)
         else (False, (blinkLedError s2)\<lparr>radio := RADIO_OFF,
                                         currentDeviceMode := MODE_UNCONFIGURED\<rparr>))"

text \<open>\<open>ap_started\<close> is what \<open>WiFi.softAP\<close> answered.\<close>

definition switchToAPMode :: "bool \<Rightarrow> sys \<Rightarrow> sys outcome" where
  "switchToAPMode ap_started s =
     (let s1 = (delay 100 (s\<lparr>radio := RADIO_OFF\<rparr>))\<lparr>radio := RADIO_AP\<rparr>
      in if ap_started
         then Continue (s1\<lparr>lastDataSendTime := clock s1, currentDeviceMode := MODE_UNCONFIGURED\<rparr>)
         else Restart (nvs (delay 5000 (blinkLedError s1))))"

definition setupWebServer :: "sys \<Rightarrow> sys" where
  "setupWebServer s = s\<lparr>portal := True\<rparr>"

definition stopWebServerAndMDNS :: "sys \<Rightarrow> sys" where
  "stopWebServerAndMDNS s = s\<lparr>portal := False\<rparr>"

text \<open>
  The sequence \<open>clearConfigurationInNVS(); switchToAPMode(); setupWebServer();\<close> that the
  firmware runs wherever it falls back to the configuration portal.
\<close>

definition revert_to_portal :: "bool \<Rightarrow> bool \<Rightarrow> sys \<Rightarrow> sys outcome" where
  "revert_to_portal opened ap_started s =
     (case switchToAPMode ap_started (clearConfigurationInNVS opened s) of
        Restart st \<Rightarrow> Restart st
      | Continue s' \<Rightarrow> Continue (setupWebServer s'))"

definition checkAndReconnectWiFi ::
  "(32 word \<Rightarrow> bool) \<Rightarrow> bool \<Rightarrow> bool \<Rightarrow> sys \<Rightarrow> (bool \<times> sys) outcome" where
  "checkAndReconnectWiFi link opened ap_started s =
     (if currentDeviceMode s = MODE_CONFIGURED \<and> \<not> link (clock s) then
        let reconnStart = clock s;
            s1 = s\<lparr>clock := reconnect_wait link reconnStart reconnStart\<rparr>
        in if \<not> link (clock s1) then
             (case revert_to_portal opened ap_started (blinkLedError s1) of
                Restart st \<Rightarrow> Restart st
              | Continue s' \<Rightarrow> Continue (False, s'))
           else Continue (True, s1)
      else if currentDeviceMode s = MODE_CONFIGURED \<and> link (clock s) then Continue (True, s)
      else Continue (False, s))"

text \<open>\<open>blinkLedInfo\<close> (utils.cpp): \<open>n\<close> times 200 ms on and 200 ms off.\<close>

definition blinkLedInfo :: "nat \<Rightarrow> sys \<Rightarrow> sys" where
  "blinkLedInfo n s = delay (400 * of_nat n) s"

text \<open>
  The registration call (data_sender.cpp). \<open>code\<close> is what \<open>http.GET()\<close> answered. The call
  changes no variable; it blinks twice on 200 or 201 and signals an error otherwise, then
  waits 20 ms.
\<close>

definition sendMacAddress :: "(32 word \<Rightarrow> bool) \<Rightarrow> int \<Rightarrow> sys \<Rightarrow> sys" where
  "sendMacAddress link code s =
     (if \<not> link (clock s) then s
      else
        let s1 = (if 0 < code
                  then (if code = 200 \<or> code = 201 then blinkLedInfo 2 s else blinkLedError s)
                  else blinkLedError s)
        in delay 20 s1)"

text \<open>The submitted form: \<open>hasArg\<close> is membership in the domain, \<open>arg\<close> the value.\<close>

definition arg :: "(string \<rightharpoonup> string) \<Rightarrow> string \<Rightarrow> string" where
  "arg form name = (case form name of Some v \<Rightarrow> v | None \<Rightarrow> '''')"

definition handleConnect ::
  "(32 word \<Rightarrow> bool) \<Rightarrow> int \<Rightarrow> bool \<Rightarrow> bool \<Rightarrow> (string \<rightharpoonup> string) \<Rightarrow> sys \<Rightarrow> sys outcome"
  where
  "handleConnect link code opened ap_started form s =
     (if form ''ssid'' = None \<or> form ''pass'' = None
         \<or> form ''username'' = None \<or> form ''serveraddr'' = None
      then Continue s
      else
        let s1 = s\<lparr>wifiSSID := arg form ''ssid'',
                    wifiPass := arg form ''pass'',
                    userName := arg form ''username'',
                    serverAddress := arg form ''serveraddr''\<rparr>;
            (connected, s2) = connectToWiFi link (stopWebServerAndMDNS s1)
        in if connected
           then Continue (sendMacAddress link code (saveConfigurationToNVS opened s2))
           else revert_to_portal opened ap_started s2)"

text \<open>
  The start-up decision of \<open>setup\<close>; the two storage operations it may run each have their
  own answer from \<open>preferences.begin\<close>.
\<close>

definition startup ::
  "(32 word \<Rightarrow> bool) \<Rightarrow> int \<Rightarrow> bool \<Rightarrow> bool \<Rightarrow> bool \<Rightarrow> sys \<Rightarrow> sys outcome" where
  "startup link code opened_load opened_clear ap_started s =
     (let (loaded, s1) = loadConfigurationFromNVS opened_load s in
      if loaded then
        let (connected, s2) = connectToWiFi link (delay 100 (s1\<lparr>radio := RADIO_OFF\<rparr>))
        in if connected then Continue (sendMacAddress link code s2)
           else revert_to_portal opened_clear ap_started s2
      else revert_to_portal opened_clear ap_started s1)"

text \<open>A confirmed button press (\<open>buttonTask\<close>, utils.cpp); the debounce wait is 50 ms.\<close>

definition button_pressed :: "bool \<Rightarrow> bool \<Rightarrow> sys \<Rightarrow> sys outcome" where
  "button_pressed opened ap_started s =
     (let s1 = delay 50 s in
      if currentDeviceMode s1 = MODE_CONFIGURED then revert_to_portal opened ap_started s1
      else Continue (blinkLedInfo 1 s1))"

subsection \<open>Vocabulary for the stored configuration, and sample inputs\<close>

text \<open>
  The spec's words for the two conditions of the storage: it holds a configuration (mode
  Configured and the four credentials), or it is cleared (mode Unconfigured and none of
  the four credential keys).
\<close>

definition store_holds :: "nvs_store \<Rightarrow> string \<Rightarrow> string \<Rightarrow> string \<Rightarrow> string \<Rightarrow> bool" where
  "store_holds st ssid pass user server \<longleftrightarrow>
     st NVS_KEY_MODE = Some (NvsUInt 1) \<and> st NVS_KEY_SSID = Some (NvsStr ssid)
     \<and> st NVS_KEY_PASS = Some (NvsStr pass) \<and> st NVS_KEY_USER = Some (NvsStr user)
     \<and> st NVS_KEY_SERVER = Some (NvsStr server)"

definition store_cleared :: "nvs_store \<Rightarrow> bool" where
  "store_cleared st \<longleftrightarrow>
     st NVS_KEY_MODE = Some (NvsUInt 0) \<and> st NVS_KEY_SSID = None \<and> st NVS_KEY_PASS = None
     \<and> st NVS_KEY_USER = None \<and> st NVS_KEY_SERVER = None"

text \<open>A link that is up at every instant, and one that is never up.\<close>

definition link_up :: "32 word \<Rightarrow> bool" where
  "link_up t = True"

definition link_down :: "32 word \<Rightarrow> bool" where
  "link_down t = False"

text \<open>A link that is down at instant 0 and up from then on.\<close>

definition link_late :: "32 word \<Rightarrow> bool" where
  "link_late t \<longleftrightarrow> t \<noteq> 0"

text \<open>A submitted form, and a device that connected with it and saved it.\<close>

definition example_form :: "string \<rightharpoonup> string" where
  "example_form =
     [''ssid'' \<mapsto> ''home'', ''pass'' \<mapsto> ''secret'',
      ''username'' \<mapsto> ''alice'', ''serveraddr'' \<mapsto> ''10.0.0.2:5000'']"

definition example_connected :: sys where
  "example_connected =
     boot_state\<lparr>wifiSSID := ''home'', wifiPass := ''secret'', userName := ''alice'',
                 serverAddress := ''10.0.0.2:5000'', radio := RADIO_STA\<rparr>"

definition example_configured :: sys where
  "example_configured = saveConfigurationToNVS True example_connected"

text \<open>The environment of a cycle on a mild dry day with the link up.\<close>

definition example_env :: cycle_env where
  "example_env =
     \<lparr>wifi_connected = True, macAddress = ''AA:BB:CC:DD:EE:FF'', rain_reading = 4000,
      mutex_taken = True, bme_temperature = Fin 15, bme_pressure = Fin 100000,
      bme_humidity = Fin 50, photo_reading = 1750, httpResponseCode = 200,
      wifi_connected_after = True\<rparr>"

subsection \<open>Rounding\<close>

lemma pow2_powr: "pow2 k = 2 powr (of_int k)"
  by (simp add: pow2_def powr_int)

lemma pow2_pos [simp]: "0 < pow2 k"
  by (simp add: pow2_powr)

lemma pow2_nonneg [simp]: "0 \<le> pow2 k"
  by (simp add: pow2_powr)

lemma abs_pow2 [simp]: "\<bar>pow2 k\<bar> = pow2 k"
  by (simp add: pow2_powr)

lemma pow2_nonzero [simp]: "pow2 k \<noteq> 0"
  using pow2_pos [of k] by linarith

lemma pow2_add: "pow2 (a + b) = pow2 a * pow2 b"
  by (simp add: pow2_powr powr_add)

lemma pow2_mono: "a \<le> b \<Longrightarrow> pow2 a \<le> pow2 b"
  by (simp add: pow2_powr)

lemma pow2_nat: "0 \<le> k \<Longrightarrow> pow2 k = of_int (2 ^ nat k)"
  by (simp add: pow2_def)

lemma round_even_of_int [simp]: "round_even (of_int n) = n"
  by (simp add: round_even_def)

lemma round_even_error: "\<bar>of_int (round_even z) - z\<bar> \<le> 1 / 2"
  by (simp add: round_even_def Let_def)

lemma round_even_ge: "of_int n \<le> z \<Longrightarrow> n \<le> round_even z"
  by (simp add: round_even_def Let_def le_floor_iff) linarith

lemma round_even_le: "z \<le> of_int n \<Longrightarrow> round_even z \<le> n"
  by (simp add: round_even_def Let_def) linarith

lemma floor_log2: "0 < x \<Longrightarrow> pow2 e \<le> x \<Longrightarrow> x < pow2 (e + 1) \<Longrightarrow> \<lfloor>log 2 x\<rfloor> = e"
  by (simp add: floor_log_eq_powr_iff pow2_powr)

lemma floor_log2_bounds:
  assumes "0 < x"
  shows "pow2 \<lfloor>log 2 x\<rfloor> \<le> x \<and> x < pow2 (\<lfloor>log 2 x\<rfloor> + 1)"
  using floor_log_eq_powr_iff [of x 2 "\<lfloor>log 2 x\<rfloor>"] assms
  by (simp add: pow2_powr)


lemma fp_exponent_eval:
  assumes "pow2 e \<le> \<bar>x\<bar>" "\<bar>x\<bar> < pow2 (e + 1)" "emin \<le> e"
  shows "fp_exponent emin x = e"
proof -
  have pos: "0 < \<bar>x\<bar>"
    using assms(1) pow2_pos [of e] by linarith
  then have "\<lfloor>log 2 \<bar>x\<bar>\<rfloor> = e"
    using assms(1,2) by (rule floor_log2)
  moreover from pos have "x \<noteq> 0" by simp
  ultimately show ?thesis
    using assms(3) by (simp add: fp_exponent_def)
qed

lemma rnd_eval:
  assumes "pow2 e \<le> \<bar>x\<bar>" "\<bar>x\<bar> < pow2 (e + 1)" "emin \<le> e"
  shows "rnd p emin x = of_int (round_even (x / pow2 (e - int p + 1))) * pow2 (e - int p + 1)"
  using fp_exponent_eval [OF assms] by (simp add: rnd_def Let_def)

lemma round_even_zero [simp]: "round_even 0 = 0"
  using round_even_of_int [of 0] by simp

lemma pow2_not_le_zero [simp]: "\<not> pow2 k \<le> 0"
  using pow2_pos [of k] by linarith

lemma rnd_zero [simp]: "rnd p emin 0 = 0"
  by (simp add: rnd_def Let_def)

lemma fp_round_zero [simp]: "fp_round p emin emax 0 = Fin 0"
  by (simp add: fp_round_def Let_def)

text \<open>The exponent picked for a non-zero value brackets it from above.\<close>

lemma fp_exponent_upper: "\<bar>x\<bar> < pow2 (fp_exponent emin x + 1)"
proof (cases "x = 0")
  case True
  then show ?thesis by simp
next
  case False
  then have "\<bar>x\<bar> < pow2 (\<lfloor>log 2 \<bar>x\<bar>\<rfloor> + 1)"
    using floor_log2_bounds [of "\<bar>x\<bar>"] by simp
  also have "\<dots> \<le> pow2 (fp_exponent emin x + 1)"
    using False by (intro pow2_mono) (simp add: fp_exponent_def)
  finally show ?thesis .
qed

lemma fp_exponent_lower:
  "pow2 emin \<le> \<bar>x\<bar> \<Longrightarrow> pow2 (fp_exponent emin x) \<le> \<bar>x\<bar>"
proof -
  assume a: "pow2 emin \<le> \<bar>x\<bar>"
  then have pos: "0 < \<bar>x\<bar>"
    using pow2_pos [of emin] by linarith
  then have nz: "x \<noteq> 0" by simp
  show ?thesis
  proof (cases "emin \<le> \<lfloor>log 2 \<bar>x\<bar>\<rfloor>")
    case True
    with nz have "fp_exponent emin x = \<lfloor>log 2 \<bar>x\<bar>\<rfloor>"
      by (simp add: fp_exponent_def)
    then show ?thesis
      using floor_log2_bounds [OF pos] by simp
  next
    case False
    then have "fp_exponent emin x = emin"
      by (simp add: fp_exponent_def)
    with a show ?thesis by simp
  qed
qed

lemma fp_exponent_ge: "emin \<le> fp_exponent emin x"
  by (simp add: fp_exponent_def)

text \<open>Rounding moves a value by at most half a unit in the last place.\<close>

lemma rnd_error: "\<bar>rnd p emin x - x\<bar> \<le> pow2 (fp_exponent emin x - int p + 1) / 2"
proof -
  define q where "q = pow2 (fp_exponent emin x - int p + 1)"
  have q: "0 < q" by (simp add: q_def)
  have "\<bar>of_int (round_even (x / q)) - x / q\<bar> \<le> 1 / 2"
    by (rule round_even_error)
  then have "\<bar>of_int (round_even (x / q)) - x / q\<bar> * q \<le> 1 / 2 * q"
    using q by (intro mult_right_mono) simp_all
  moreover have "of_int (round_even (x / q)) * q - x = (of_int (round_even (x / q)) - x / q) * q"
    using q by (simp add: left_diff_distrib)
  then have "\<bar>of_int (round_even (x / q)) * q - x\<bar>
      = \<bar>of_int (round_even (x / q)) - x / q\<bar> * q"
    using q by (simp add: abs_mult)
  ultimately show ?thesis
    by (simp add: rnd_def Let_def q_def [symmetric])
qed


lemma rnd_rel_error:
  assumes "pow2 emin \<le> \<bar>x\<bar>"
  shows "\<bar>rnd p emin x - x\<bar> \<le> \<bar>x\<bar> * pow2 (- int p)"
proof -
  have "pow2 (fp_exponent emin x - int p + 1) / 2 = pow2 (fp_exponent emin x) * pow2 (- int p)"
  proof -
    have "pow2 (fp_exponent emin x - int p + 1) = pow2 (fp_exponent emin x) * pow2 (- int p) * pow2 1"
      by (simp add: pow2_add [symmetric])
    then show ?thesis by (simp add: pow2_def)
  qed
  also have "\<dots> \<le> \<bar>x\<bar> * pow2 (- int p)"
    using fp_exponent_lower [OF assms] by (intro mult_right_mono) simp_all
  finally show ?thesis
    using rnd_error [of p emin x] by linarith
qed

lemma rnd_abs_error:
  "\<bar>rnd p emin x - x\<bar> \<le> max (\<bar>x\<bar> * pow2 (- int p)) (pow2 (emin - int p))"
proof (cases "pow2 emin \<le> \<bar>x\<bar>")
  case True
  then show ?thesis
    using rnd_rel_error [of emin x p] by simp
next
  case False
  then have small: "\<bar>x\<bar> < pow2 emin" by simp
  have "fp_exponent emin x = emin"
  proof (cases "x = 0")
    case True
    then show ?thesis
      by (simp add: fp_exponent_def)
  next
    case nz: False
    then have "pow2 \<lfloor>log 2 \<bar>x\<bar>\<rfloor> \<le> \<bar>x\<bar>"
      using floor_log2_bounds [of "\<bar>x\<bar>"] by simp
    with small have "pow2 \<lfloor>log 2 \<bar>x\<bar>\<rfloor> < pow2 emin"
      by linarith
    then have "\<lfloor>log 2 \<bar>x\<bar>\<rfloor> < emin"
      by (simp add: pow2_powr)
    then show ?thesis
      by (simp add: fp_exponent_def)
  qed
  moreover have "pow2 (emin - int p + 1) / 2 = pow2 (emin - int p)"
  proof -
    have "pow2 (emin - int p + 1) = pow2 (emin - int p) * pow2 1"
      by (simp add: pow2_add [symmetric])
    then show ?thesis by (simp add: pow2_def)
  qed
  ultimately show ?thesis
    using rnd_error [of p emin x] by simp
qed

text \<open>A value \<open>m * 2^k\<close> with fewer than \<open>p\<close> bits in \<open>m\<close> is kept as it is.\<close>

lemma rnd_exact:
  assumes "\<bar>m\<bar> < 2 ^ p" "emin - int p + 1 \<le> k"
  shows "rnd p emin (of_int m * pow2 k) = of_int m * pow2 k"
proof (cases "m = 0")
  case True
  then show ?thesis by simp
next
  case False
  define x where "x = of_int m * pow2 k"
  define e where "e = fp_exponent emin x"
  have "\<bar>x\<bar> = of_int \<bar>m\<bar> * pow2 k"
    by (simp add: x_def abs_mult)
  also have "\<dots> < of_int (2 ^ p) * pow2 k"
  proof -
    have "real_of_int \<bar>m\<bar> < real_of_int (2 ^ p)"
      using assms(1) by (simp only: of_int_less_iff)
    then show ?thesis
      by (intro mult_strict_right_mono) simp_all
  qed
  also have "\<dots> = pow2 (int p + k)"
  proof -
    have "pow2 (int p) = of_int (2 ^ p)"
      by (simp add: pow2_def)
    then show ?thesis
      by (simp only: pow2_add)
  qed
  finally have upper: "\<bar>x\<bar> < pow2 (int p + k)" .
  have xpos: "0 < \<bar>x\<bar>"
    using False by (simp add: x_def)
  have "pow2 \<lfloor>log 2 \<bar>x\<bar>\<rfloor> \<le> \<bar>x\<bar>"
    using floor_log2_bounds [OF xpos] by simp
  with upper have "pow2 \<lfloor>log 2 \<bar>x\<bar>\<rfloor> < pow2 (int p + k)"
    by linarith
  then have "\<lfloor>log 2 \<bar>x\<bar>\<rfloor> < int p + k"
    by (simp add: pow2_powr)
  with assms(2) have e_le: "e - int p + 1 \<le> k"
    using xpos by (simp add: e_def fp_exponent_def)
  define j where "j = k - (e - int p + 1)"
  have j: "0 \<le> j" using e_le by (simp add: j_def)
  have split: "pow2 k = pow2 j * pow2 (e - int p + 1)"
    by (simp add: pow2_add [symmetric] j_def)
  have "x / pow2 (e - int p + 1) = of_int m * pow2 j"
    by (simp add: x_def split)
  also have "\<dots> = of_int (m * 2 ^ nat j)"
    using j by (simp add: pow2_nat)
  finally have "round_even (x / pow2 (e - int p + 1)) = m * 2 ^ nat j"
    by (simp only: round_even_of_int)
  then have "rnd p emin x = of_int (m * 2 ^ nat j) * pow2 (e - int p + 1)"
    by (simp add: rnd_def Let_def e_def)
  also have "\<dots> = of_int m * (pow2 j * pow2 (e - int p + 1))"
    using j by (simp add: pow2_nat)
  finally show ?thesis
    by (simp add: x_def split)
qed

lemma rnd_of_int: "\<bar>n\<bar> < 2 ^ p \<Longrightarrow> emin - int p + 1 \<le> 0 \<Longrightarrow> rnd p emin (of_int n) = of_int n"
  using rnd_exact [of n p emin 0] by (simp add: pow2_def)


lemma rnd_bounded:
  assumes "1 \<le> p" "emin \<le> emax" "\<bar>x\<bar> \<le> pow2 emax"
  shows "\<bar>rnd p emin x\<bar> < pow2 (emax + 1)"
proof -
  have half: "pow2 (- int p) \<le> 1 / 2"
  proof -
    have "pow2 (- int p) \<le> pow2 (- 1)"
      using assms(1) by (intro pow2_mono) simp
    then show ?thesis by (simp add: pow2_def)
  qed
  have "\<bar>x\<bar> * pow2 (- int p) \<le> pow2 emax * (1 / 2)"
    using assms(3) half by (intro mult_mono) simp_all
  moreover have "pow2 (emin - int p) \<le> pow2 emax * (1 / 2)"
  proof -
    have "pow2 (emin - int p) \<le> pow2 (emax - 1)"
      using assms(1,2) by (intro pow2_mono) simp
    also have "pow2 (emax - 1) = pow2 emax * pow2 (- 1)"
      by (simp add: pow2_add [symmetric])
    finally show ?thesis by (simp add: pow2_def)
  qed
  ultimately have "max (\<bar>x\<bar> * pow2 (- int p)) (pow2 (emin - int p)) \<le> pow2 emax * (1 / 2)"
    by (rule max.boundedI)
  then have "\<bar>rnd p emin x - x\<bar> \<le> pow2 emax * (1 / 2)"
    using rnd_abs_error [of p emin x] by (rule order_trans [rotated])
  with assms(3) have "\<bar>rnd p emin x\<bar> \<le> pow2 emax + pow2 emax * (1 / 2)"
    by linarith
  also have "\<dots> < pow2 emax * pow2 1"
    using pow2_pos [of emax] by (simp add: pow2_def)
  also have "\<dots> = pow2 (emax + 1)"
    by (simp add: pow2_add)
  finally show ?thesis .
qed

lemma fp_round_finite:
  assumes "1 \<le> p" "emin \<le> emax" "\<bar>x\<bar> \<le> pow2 emax"
  shows "fp_round p emin emax x = Fin (rnd p emin x)"
  using rnd_bounded [OF assms] by (simp add: fp_round_def Let_def)

lemma fp_round_exact:
  assumes "\<bar>m\<bar> < 2 ^ p" "emin - int p + 1 \<le> k" "\<bar>of_int m * pow2 k\<bar> < pow2 (emax + 1)"
  shows "fp_round p emin emax (of_int m * pow2 k) = Fin (of_int m * pow2 k)"
  using assms(3) by (simp add: fp_round_def Let_def rnd_exact [OF assms(1,2)])

lemma fp_round_eval:
  assumes "pow2 e \<le> \<bar>x\<bar>" "\<bar>x\<bar> < pow2 (e + 1)" "emin \<le> e"
    and "round_even (x / pow2 (e - int p + 1)) = m"
    and "\<bar>of_int m * pow2 (e - int p + 1)\<bar> < pow2 (emax + 1)"
  shows "fp_round p emin emax x = Fin (of_int m * pow2 (e - int p + 1))"
  using assms(4,5) by (simp add: fp_round_def Let_def rnd_eval [OF assms(1-3)])

lemma rnd_nonzero:
  assumes "pow2 (emin - int p + 1) \<le> \<bar>x\<bar>" "1 \<le> p"
  shows "rnd p emin x \<noteq> 0"
proof -
  define q where "q = pow2 (fp_exponent emin x - int p + 1)"
  have q: "0 < q" by (simp add: q_def)
  have "q \<le> \<bar>x\<bar>"
  proof (cases "pow2 emin \<le> \<bar>x\<bar>")
    case True
    have "q \<le> pow2 (fp_exponent emin x)"
      unfolding q_def using assms(2) by (intro pow2_mono) simp
    with fp_exponent_lower [OF True] show ?thesis by linarith
  next
    case False
    then have small: "\<bar>x\<bar> < pow2 emin" by simp
    have "x \<noteq> 0"
      using assms(1) pow2_pos [of "emin - int p + 1"] by auto
    then have "pow2 \<lfloor>log 2 \<bar>x\<bar>\<rfloor> \<le> \<bar>x\<bar>"
      using floor_log2_bounds [of "\<bar>x\<bar>"] by simp
    with small have "pow2 \<lfloor>log 2 \<bar>x\<bar>\<rfloor> < pow2 emin"
      by linarith
    then have "\<lfloor>log 2 \<bar>x\<bar>\<rfloor> < emin"
      by (simp add: pow2_powr)
    then have "fp_exponent emin x = emin"
      by (simp add: fp_exponent_def)
    with assms(1) show ?thesis by (simp add: q_def)
  qed
  then have one: "1 \<le> \<bar>x / q\<bar>"
    using q by (simp add: abs_if field_simps split: if_splits)
  have "round_even (x / q) \<noteq> 0"
  proof (cases "0 \<le> x / q")
    case True
    with one have "of_int 1 \<le> x / q" by simp
    then have "1 \<le> round_even (x / q)" by (rule round_even_ge)
    then show ?thesis by simp
  next
    case False
    with one have "x / q \<le> of_int (- 1)" by simp
    then have "round_even (x / q) \<le> - 1" by (rule round_even_le)
    then show ?thesis by simp
  qed
  then show ?thesis
    by (simp add: rnd_def Let_def q_def)
qed

lemma fp_round_nonzero:
  assumes "pow2 (emin - int p + 1) \<le> \<bar>x\<bar>" "1 \<le> p"
  shows "fp_round p emin emax x \<noteq> Fin 0"
  using rnd_nonzero [OF assms] by (simp add: fp_round_def Let_def)

lemma rnd_multiple:
  "rnd p emin x \<noteq> 0 \<Longrightarrow> pow2 (emin - int p + 1) \<le> \<bar>rnd p emin x\<bar>"
proof -
  define q where "q = pow2 (fp_exponent emin x - int p + 1)"
  define r where "r = round_even (x / q)"
  assume "rnd p emin x \<noteq> 0"
  then have "r \<noteq> 0"
    by (auto simp: rnd_def Let_def q_def r_def)
  then have "1 \<le> \<bar>real_of_int r\<bar>"
    by (simp add: abs_if)
  then have "1 * q \<le> \<bar>real_of_int r\<bar> * q"
    by (intro mult_right_mono) (simp_all add: q_def)
  moreover have "pow2 (emin - int p + 1) \<le> q"
    unfolding q_def using fp_exponent_ge [of emin x] by (intro pow2_mono) simp
  moreover have "\<bar>rnd p emin x\<bar> = \<bar>real_of_int r\<bar> * q"
    by (simp add: rnd_def Let_def q_def r_def abs_mult)
  ultimately show ?thesis by simp
qed

lemma fp_round_multiple:
  assumes "fp_round p emin emax x = Fin y" "y \<noteq> 0"
  shows "pow2 (emin - int p + 1) \<le> \<bar>y\<bar>"
proof -
  from assms(1) have "y = rnd p emin x"
    by (simp add: fp_round_def Let_def split: if_splits)
  with assms(2) rnd_multiple [of p emin x] show ?thesis by simp
qed

lemma fp_round_overflow:
  assumes "pow2 (emax + 1) \<le> \<bar>x\<bar>" "emin \<le> emax" "1 \<le> p"
  shows "fp_round p emin emax x = (if 0 < x then PInf else NInf)"
proof -
  define e where "e = fp_exponent emin x"
  define q where "q = pow2 (e - int p + 1)"
  have q: "0 < q" by (simp add: q_def)
  have "pow2 (emax + 1) < pow2 (e + 1)"
    using assms(1) fp_exponent_upper [of x emin] by (simp add: e_def)
  then have e: "emax + 1 \<le> e"
    by (simp add: pow2_powr)
  have "pow2 emin \<le> pow2 (emax + 1)"
    using assms(2) by (intro pow2_mono) simp
  with assms(1) have "pow2 emin \<le> \<bar>x\<bar>" by linarith
  then have low: "pow2 e \<le> \<bar>x\<bar>"
    unfolding e_def by (rule fp_exponent_lower)
  have pe: "pow2 e = of_int (2 ^ (p - 1)) * q"
  proof -
    have "pow2 (int (p - 1)) = of_int (2 ^ (p - 1))"
      by (simp add: pow2_def)
    moreover have "pow2 e = pow2 (int (p - 1)) * q"
      using assms(3) unfolding q_def by (simp add: pow2_add [symmetric] of_nat_diff)
    ultimately show ?thesis by simp
  qed
  have big: "pow2 (emax + 1) \<le> pow2 e"
    using e by (rule pow2_mono)
  have rnd_eq: "rnd p emin x = real_of_int (round_even (x / q)) * q"
    by (simp add: rnd_def Let_def e_def q_def)
  show ?thesis
  proof (cases "0 < x")
    case True
    with low pe have "of_int (2 ^ (p - 1)) * q \<le> x" by simp
    then have "of_int (2 ^ (p - 1)) \<le> x / q"
      using q by (simp add: field_simps)
    then have "2 ^ (p - 1) \<le> round_even (x / q)"
      by (rule round_even_ge)
    then have "real_of_int (2 ^ (p - 1)) \<le> real_of_int (round_even (x / q))"
      by (simp only: of_int_le_iff)
    then have "real_of_int (2 ^ (p - 1)) * q \<le> real_of_int (round_even (x / q)) * q"
      using q by (intro mult_right_mono) simp_all
    with pe big rnd_eq have ge: "pow2 (emax + 1) \<le> rnd p emin x"
      by linarith
    then have "0 < rnd p emin x" "pow2 (emax + 1) \<le> \<bar>rnd p emin x\<bar>"
      using pow2_pos [of "emax + 1"] by linarith+
    with True show ?thesis
      by (simp add: fp_round_def Let_def)
  next
    case False
    with assms(1) pow2_pos [of "emax + 1"] have neg: "x < 0" by (simp add: abs_if split: if_splits)
    with low pe have "x \<le> - (of_int (2 ^ (p - 1)) * q)" by simp
    then have "x / q \<le> of_int (- (2 ^ (p - 1)))"
      using q by (simp add: field_simps)
    then have "round_even (x / q) \<le> - (2 ^ (p - 1))"
      by (rule round_even_le)
    then have "real_of_int (round_even (x / q)) \<le> real_of_int (- (2 ^ (p - 1)))"
      by (simp only: of_int_le_iff)
    then have "real_of_int (round_even (x / q)) * q \<le> real_of_int (- (2 ^ (p - 1))) * q"
      using q by (intro mult_right_mono) simp_all
    with pe big rnd_eq have "rnd p emin x \<le> - pow2 (emax + 1)"
      by (simp only: of_int_minus)
    then have "\<not> 0 < rnd p emin x" "pow2 (emax + 1) \<le> \<bar>rnd p emin x\<bar>"
      using pow2_pos [of "emax + 1"] by linarith+
    with neg show ?thesis
      by (simp add: fp_round_def Let_def)
  qed
qed

lemma round_even_eval:
  "of_int f \<le> z \<Longrightarrow> z < of_int f + 1 \<Longrightarrow>
   round_even z = (if z - of_int f < 1 / 2 then f else if 1 / 2 < z - of_int f then f + 1
                   else if even f then f else f + 1)"
proof -
  assume "of_int f \<le> z" "z < of_int f + 1"
  then have "\<lfloor>z\<rfloor> = f" by linarith
  then show ?thesis by (simp add: round_even_def Let_def)
qed

text \<open>Integers within the significand are values of the format.\<close>

lemma fp_round_not_nan [simp]: "fp_round p emin emax x \<noteq> NaN"
  by (simp add: fp_round_def Let_def)

lemma f32_of_int: "\<bar>n\<bar> < 2 ^ 24 \<Longrightarrow> f32 (of_int n) = Fin (of_int n)"
proof -
  assume a: "\<bar>n\<bar> < 2 ^ 24"
  then have "\<bar>real_of_int n\<bar> < 2 ^ 24"
    by (metis of_int_abs of_int_less_iff of_int_numeral of_int_power)
  then have "\<bar>real_of_int n * pow2 0\<bar> < pow2 (127 + 1)"
    by (simp add: pow2_def)
  with a have "fp_round 24 (- 126) 127 (of_int n * pow2 0) = Fin (of_int n * pow2 0)"
    by (intro fp_round_exact) simp_all
  then show ?thesis
    by (simp add: f32_def pow2_def)
qed

lemma f64_of_int: "\<bar>n\<bar> < 2 ^ 53 \<Longrightarrow> f64 (of_int n) = Fin (of_int n)"
proof -
  assume a: "\<bar>n\<bar> < 2 ^ 53"
  then have "\<bar>real_of_int n\<bar> < 2 ^ 53"
    by (metis of_int_abs of_int_less_iff of_int_numeral of_int_power)
  then have "\<bar>real_of_int n * pow2 0\<bar> < pow2 (1023 + 1)"
    by (simp add: pow2_def)
  with a have "fp_round 53 (- 1022) 1023 (of_int n * pow2 0) = Fin (of_int n * pow2 0)"
    by (intro fp_round_exact) simp_all
  then show ?thesis
    by (simp add: f64_def pow2_def)
qed

lemma sint_count: "n < 2 ^ 31 \<Longrightarrow> sint (of_nat n :: 32 word) = int n"
  by (simp add: signed_of_nat signed_take_bit_int_eq_self)

subsection \<open>Properties of the wind accumulator\<close>

lemma holds_pending_init: "holds_pending wind_init []"
  by (simp add: holds_pending_def wind_init_def)

lemma holds_pending_record:
  "holds_pending a pending \<Longrightarrow> holds_pending (record_sample x a) (pending @ [x])"
  by (simp add: holds_pending_def record_sample_def)

lemma drainAverage_mean:
  assumes "holds_pending a pending" "length pending < 2 ^ 31"
  shows "fst (drainAverage a) = float_mean pending"
proof (cases "pending = []")
  case True
  with assms(1) show ?thesis
    by (simp add: holds_pending_def drainAverage_def float_mean_def)
next
  case False
  then have pos: "0 < length pending" by simp
  have "sint (windReadingCount a) = int (length pending)"
    using assms by (simp add: holds_pending_def sint_count)
  with pos False assms(1) show ?thesis
    by (simp add: holds_pending_def drainAverage_def float_mean_def)
qed

lemma drainAverage_resets: "snd (drainAverage a) = wind_init"
  by (simp add: drainAverage_def wind_init_def)

lemma run_wind_refines:
  "holds_pending a pending \<Longrightarrow> length pending + length ops < 2 ^ 31 \<Longrightarrow>
   fst (run_wind a ops) = spec_drains pending ops"
proof (induction ops arbitrary: a pending)
  case Nil
  show ?case by simp
next
  case (Cons op ops)
  show ?case
  proof (cases op)
    case (Record x)
    from Cons.prems(1) have "holds_pending (record_sample x a) (pending @ [x])"
      by (rule holds_pending_record)
    moreover from Cons.prems(2) have "length (pending @ [x]) + length ops < 2 ^ 31"
      by simp
    ultimately have "fst (run_wind (record_sample x a) ops) = spec_drains (pending @ [x]) ops"
      by (rule Cons.IH)
    then show ?thesis using Record by simp
  next
    case Drain
    have reset: "holds_pending (snd (drainAverage a)) []"
      by (simp add: drainAverage_resets holds_pending_init)
    moreover from Cons.prems(2) have "length ([] :: ieee list) + length ops < 2 ^ 31"
      by simp
    ultimately have "fst (run_wind (snd (drainAverage a)) ops) = spec_drains [] ops"
      by (rule Cons.IH)
    moreover have "fst (drainAverage a) = float_mean pending"
      using Cons.prems by (intro drainAverage_mean) simp_all
    ultimately show ?thesis using Drain
      by (simp add: case_prod_beta Let_def)
  qed
qed

text \<open>
  How far the single-precision mean is from the arithmetic mean. Each addition moves the
  running sum by at most half a unit in its last place; for \<open>n\<close> samples between 0 and 64 the
  sum stays below \<open>128 * n\<close>, so each addition moves it by at most \<open>n / 2\<^sup>1\<^sup>7\<close>.
\<close>

lemma f32_abs_error:
  assumes "\<bar>x\<bar> \<le> b" "b * pow2 (- 24) \<le> d" "pow2 (- 150) \<le> d" "b \<le> pow2 127"
  shows "\<exists>y. f32 x = Fin y \<and> \<bar>y - x\<bar> \<le> d"
proof -
  have "\<bar>x\<bar> \<le> pow2 127"
    using assms(1,4) by linarith
  then have fin: "f32 x = Fin (rnd 24 (- 126) x)"
    unfolding f32_def by (intro fp_round_finite) simp_all
  have "\<bar>x\<bar> * pow2 (- 24) \<le> b * pow2 (- 24)"
    using assms(1) by (intro mult_right_mono) simp_all
  then have "\<bar>x\<bar> * pow2 (- 24) \<le> d"
    using assms(2) by (rule order_trans)
  with assms(3) have "max (\<bar>x\<bar> * pow2 (- int 24)) (pow2 (- 126 - int 24)) \<le> d"
    by simp
  with rnd_abs_error [of 24 "- 126" x] have "\<bar>rnd 24 (- 126) x - x\<bar> \<le> d"
    by (rule order_trans)
  with fin show ?thesis
    by blast
qed

lemma sum_list_bounds:
  "\<forall>v \<in> set vs. 0 \<le> v \<and> v \<le> (64 :: real) \<Longrightarrow>
   0 \<le> sum_list vs \<and> sum_list vs \<le> 64 * real (length vs)"
  by (induction vs) auto

lemma float_sum_error:
  assumes "\<forall>v \<in> set vs. 0 \<le> v \<and> v \<le> 64"
    and "\<bar>s - S\<bar> \<le> real k * (N / 2 ^ 17)" "0 \<le> S" "S \<le> 64 * real k"
    and "real k + real (length vs) \<le> N" "N \<le> 2 ^ 23"
  shows "\<exists>t. foldl (fadd f32) (Fin s) (map Fin vs) = Fin t
     \<and> \<bar>t - (S + sum_list vs)\<bar> \<le> (real k + real (length vs)) * (N / 2 ^ 17)"
  using assms
proof (induction vs arbitrary: s S k)
  case Nil
  then show ?case by simp
next
  case (Cons v vs)
  define c where "c = N / 2 ^ 17"
  have v: "0 \<le> v" "v \<le> 64"
    using Cons.prems(1) by simp_all
  have N: "real k + 1 \<le> N" "1 \<le> N" "0 \<le> N"
    using Cons.prems(5) by simp_all
  have c: "0 \<le> c" "c \<le> 64" "1 / 2 ^ 17 \<le> c"
    using N Cons.prems(6) by (simp_all add: c_def field_simps)
  have "real k * c \<le> N * c"
    using N(1) c(1) by (intro mult_right_mono) simp_all
  also have "\<dots> \<le> N * 64"
    using c(2) N(3) by (intro mult_left_mono) simp_all
  finally have kc: "real k * c \<le> 64 * N"
    by simp
  have "\<bar>s + v\<bar> \<le> \<bar>S + v\<bar> + \<bar>s - S\<bar>"
    by linarith
  also have "\<dots> \<le> (64 * real k + 64) + real k * c"
    using Cons.prems(2,3,4) v by (simp add: c_def)
  also have "\<dots> \<le> 64 * N + 64 * N"
    using kc N(1) by linarith
  finally have big: "\<bar>s + v\<bar> \<le> 128 * N"
    by simp
  have "\<exists>y. f32 (s + v) = Fin y \<and> \<bar>y - (s + v)\<bar> \<le> c"
    using big
  proof (rule f32_abs_error)
    show "128 * N * pow2 (- 24) \<le> c"
      by (simp add: c_def pow2_def)
    show "pow2 (- 150) \<le> c"
      using c(3) by (simp add: pow2_def)
    show "128 * N \<le> pow2 127"
      using Cons.prems(6) by (simp add: pow2_def)
  qed
  then obtain y where y: "f32 (s + v) = Fin y" "\<bar>y - (s + v)\<bar> \<le> c"
    by blast
  have "real (Suc k) * (N / 2 ^ 17) = real k * c + c"
    by (simp add: c_def algebra_simps)
  moreover have "\<bar>s - S\<bar> \<le> real k * c"
    using Cons.prems(2) by (simp add: c_def)
  ultimately have step: "\<bar>y - (S + v)\<bar> \<le> real (Suc k) * (N / 2 ^ 17)"
    using y(2) by linarith
  have "\<exists>t. foldl (fadd f32) (Fin y) (map Fin vs) = Fin t
     \<and> \<bar>t - ((S + v) + sum_list vs)\<bar> \<le> (real (Suc k) + real (length vs)) * (N / 2 ^ 17)"
  proof (rule Cons.IH [OF _ step])
    show "\<forall>v \<in> set vs. 0 \<le> v \<and> v \<le> 64"
      using Cons.prems(1) by simp
    show "0 \<le> S + v"
      using Cons.prems(3) v(1) by simp
    show "S + v \<le> 64 * real (Suc k)"
      using Cons.prems(4) v(2) by simp
    show "real (Suc k) + real (length vs) \<le> N"
      using Cons.prems(5) by simp
    show "N \<le> 2 ^ 23"
      by (rule Cons.prems(6))
  qed
  then show ?case
    by (simp add: y(1) algebra_simps)
qed

lemma float_mean_error:
  assumes "\<forall>v \<in> set vs. 0 \<le> v \<and> v \<le> 64" "vs \<noteq> []" "length vs \<le> 2 ^ 23"
  shows "\<exists>m. float_mean (map Fin vs) = Fin m
     \<and> \<bar>m - mean vs\<bar> \<le> real (length vs + 1) / 2 ^ 17"
proof -
  define n where "n = real (length vs)"
  have n: "1 \<le> n" "0 < n"
    using assms(2) by (simp_all add: n_def Suc_le_eq)
  have "n \<le> real ((2 :: nat) ^ 23)"
    unfolding n_def using assms(3) by (rule of_nat_mono)
  also have "real ((2 :: nat) ^ 23) = 2 ^ 23"
    by simp
  finally have n23: "n \<le> 2 ^ 23" .
  have sum: "0 \<le> sum_list vs" "sum_list vs \<le> 64 * n"
    using sum_list_bounds [OF assms(1)] by (simp_all add: n_def)
  have "\<exists>t. foldl (fadd f32) (Fin 0) (map Fin vs) = Fin t
     \<and> \<bar>t - (0 + sum_list vs)\<bar> \<le> (real 0 + real (length vs)) * (n / 2 ^ 17)"
    using assms(1) _ _ _ _ n23 by (rule float_sum_error) (simp_all add: n_def)
  then obtain t where t: "foldl (fadd f32) (Fin 0) (map Fin vs) = Fin t"
      "\<bar>t - sum_list vs\<bar> \<le> n * (n / 2 ^ 17)"
    by (auto simp: n_def)
  have "n * (n / 2 ^ 17) \<le> n * (2 ^ 23 / 2 ^ 17)"
    using n23 n(2) by (intro mult_left_mono divide_right_mono) simp_all
  then have "n * (n / 2 ^ 17) \<le> 64 * n"
    by simp
  with t(2) sum have "\<bar>t\<bar> \<le> 128 * n"
    by linarith
  then have "\<bar>t\<bar> / n \<le> 128 * n / n"
    using n(2) by (intro divide_right_mono) simp_all
  then have quot: "\<bar>t / n\<bar> \<le> 128"
    using n(2) by simp
  have "\<exists>m. f32 (t / n) = Fin m \<and> \<bar>m - t / n\<bar> \<le> 1 / 2 ^ 17"
    using quot by (rule f32_abs_error) (simp_all add: pow2_def)
  then obtain m where m: "f32 (t / n) = Fin m" "\<bar>m - t / n\<bar> \<le> 1 / 2 ^ 17"
    by blast
  have "\<bar>int (length vs)\<bar> < 2 ^ 24"
    using assms(3) by simp
  then have "f32 (real_of_int (int (length vs))) = Fin (real_of_int (int (length vs)))"
    by (rule f32_of_int)
  then have cnt: "f32 (real (length vs)) = Fin n"
    by (simp add: n_def)
  have run: "float_mean (map Fin vs) = Fin m"
    using assms(2) n(2) by (simp add: float_mean_def t(1) cnt m(1))
  have "t / n - sum_list vs / n = (t - sum_list vs) / n"
    by (simp add: diff_divide_distrib)
  then have "\<bar>t / n - sum_list vs / n\<bar> = \<bar>t - sum_list vs\<bar> / n"
    using n(2) by simp
  also have "\<dots> \<le> (n * (n / 2 ^ 17)) / n"
    using t(2) n(2) by (intro divide_right_mono) simp_all
  also have "\<dots> = n / 2 ^ 17"
    using n(2) by simp
  finally have "\<bar>m - sum_list vs / n\<bar> \<le> n / 2 ^ 17 + 1 / 2 ^ 17"
    using m(2) by linarith
  moreover have "mean vs = sum_list vs / n"
    using assms(2) by (simp add: mean_def n_def)
  moreover have "real (length vs + 1) / 2 ^ 17 = n / 2 ^ 17 + 1 / 2 ^ 17"
    by (simp add: n_def add_divide_distrib)
  ultimately show ?thesis
    using run by auto
qed

text \<open>Every sample the sampling task computes is a number between 0 and 33 m/s.\<close>

lemma sample_range: "\<exists>v. currentWindSpeedms w = Fin v \<and> 0 \<le> v \<and> v \<le> 33"
proof -
  define k where "k = constrain (map_range w 0 1023 0 3240) 0 3240"
  have k: "0 \<le> k" "k \<le> 3240"
    by (simp_all add: k_def constrain_def)
  then have "\<bar>k\<bar> < 2 ^ 24"
    by simp
  then have conv: "f32 (real_of_int k) = Fin (real_of_int k)"
    by (rule f32_of_int)
  have "\<bar>real_of_int k / 100\<bar> \<le> 324 / 10"
    using k by simp
  then have "\<exists>y. f32 (real_of_int k / 100) = Fin y \<and> \<bar>y - real_of_int k / 100\<bar> \<le> 1 / 2 ^ 18"
    by (rule f32_abs_error) (simp_all add: pow2_def)
  then obtain y where y: "f32 (real_of_int k / 100) = Fin y"
      "\<bar>y - real_of_int k / 100\<bar> \<le> 1 / 2 ^ 18"
    by blast
  have run: "currentWindSpeedms w = Fin y"
    by (simp add: currentWindSpeedms_def k_def [symmetric] conv y(1))
  have tiny: "(1 :: real) / 2 ^ 18 \<le> 1 / 100"
    by simp
  have "real_of_int k / 100 \<le> 324 / 10"
    using k(2) by simp
  with y(2) tiny have upper: "y \<le> 33"
    by linarith
  have "0 \<le> y"
  proof (cases "k = 0")
    case True
    with y(1) show ?thesis by (simp add: f32_def)
  next
    case False
    with k(1) have "1 \<le> k" by simp
    then have "1 / 100 \<le> real_of_int k / 100"
      by simp
    with y(2) tiny show ?thesis by linarith
  qed
  with run upper show ?thesis
    by blast
qed

text \<open>
  Claim C1, amended. For every sequence of fewer than \<open>2\<^sup>3\<^sup>1\<close> records and drains, each drain
  returns the single-precision mean of exactly the samples recorded since the previous
  drain: their running sum, rounded to single precision after every addition, divided in
  single precision by their number. For at most \<open>2\<^sup>2\<^sup>3\<close> samples between 0 and 64 m/s (every
  sample the sampling task computes lies between 0 and 33) that value differs from their
  arithmetic mean by at most \<open>(n + 1) / 2\<^sup>1\<^sup>7\<close>, \<open>n\<close> their number. A drain returns 0.0 when no
  sample was recorded since the previous one, so two drains in immediate succession both
  return 0.0; and every drain resets the sum and the count to zero.
\<close>

theorem wind_drain_float_mean:
  "(length ops < 2 ^ 31 \<longrightarrow> fst (run_wind wind_init ops) = spec_drains [] ops)
   \<and> ((\<forall>v \<in> set vs. 0 \<le> v \<and> v \<le> 64) \<and> vs \<noteq> [] \<and> length vs \<le> 2 ^ 23 \<longrightarrow>
        (\<exists>m. float_mean (map Fin vs) = Fin m
           \<and> \<bar>m - mean vs\<bar> \<le> real (length vs + 1) / 2 ^ 17))
   \<and> (\<exists>v. currentWindSpeedms w = Fin v \<and> 0 \<le> v \<and> v \<le> 33)
   \<and> float_mean [] = Fin 0
   \<and> totalWindSpeedSum (snd (drainAverage a)) = Fin 0
   \<and> windReadingCount (snd (drainAverage a)) = 0
   \<and> fst (drainAverage wind_init) = Fin 0
   \<and> fst (run_wind (snd (drainAverage a)) [Drain, Drain]) = [Fin 0, Fin 0]"
proof -
  have refines: "length ops < 2 ^ 31 \<longrightarrow> fst (run_wind wind_init ops) = spec_drains [] ops"
    using run_wind_refines [OF holds_pending_init, of ops] by simp
  have close: "(\<forall>v \<in> set vs. 0 \<le> v \<and> v \<le> 64) \<and> vs \<noteq> [] \<and> length vs \<le> 2 ^ 23 \<longrightarrow>
        (\<exists>m. float_mean (map Fin vs) = Fin m
           \<and> \<bar>m - mean vs\<bar> \<le> real (length vs + 1) / 2 ^ 17)"
    using float_mean_error [of vs] by blast
  have rest: "float_mean [] = Fin 0
   \<and> totalWindSpeedSum (snd (drainAverage a)) = Fin 0
   \<and> windReadingCount (snd (drainAverage a)) = 0
   \<and> fst (drainAverage wind_init) = Fin 0
   \<and> fst (run_wind (snd (drainAverage a)) [Drain, Drain]) = [Fin 0, Fin 0]"
    by (simp add: drainAverage_def wind_init_def float_mean_def)
  from refines close sample_range [of w] rest show ?thesis
    by blast
qed

lemma f32_small:
  "f32 2 = Fin 2" "f32 3 = Fin 3" "f32 4 = Fin 4" "f32 6 = Fin 6" "f32 12 = Fin 12"
  "f32 22 = Fin 22"
  using f32_of_int [of 2] f32_of_int [of 3] f32_of_int [of 4] f32_of_int [of 6]
    f32_of_int [of 12] f32_of_int [of 22]
  by simp_all

theorem wind_drain_float_mean_witness:
  "fst (run_wind wind_init [Record (Fin 2), Record (Fin 4), Record (Fin 6), Drain]) = [Fin 4]
   \<and> (\<exists>m. float_mean [Fin 2, Fin 4, Fin 6] = Fin m \<and> \<bar>m - 4\<bar> \<le> 4 / 2 ^ 17)"
proof -
  have len: "length [Record (Fin 2), Record (Fin 4), Record (Fin 6), Drain] < (2 :: nat) ^ 31"
    by simp
  have samples: "(\<forall>v \<in> set [2, 4, 6 :: real]. 0 \<le> v \<and> v \<le> 64) \<and> [2, 4, 6 :: real] \<noteq> []
      \<and> length [2, 4, 6 :: real] \<le> 2 ^ 23"
    by simp
  note inst = wind_drain_float_mean [where ops = "[Record (Fin 2), Record (Fin 4), Record (Fin 6), Drain]"
      and vs = "[2, 4, 6]" and w = 0 and a = wind_init]
  from inst len
  have "fst (run_wind wind_init [Record (Fin 2), Record (Fin 4), Record (Fin 6), Drain])
      = spec_drains [] [Record (Fin 2), Record (Fin 4), Record (Fin 6), Drain]"
    by blast
  then have first: "fst (run_wind wind_init [Record (Fin 2), Record (Fin 4), Record (Fin 6), Drain])
      = [Fin 4]"
    by (simp add: float_mean_def f32_small)
  from inst samples
  have "\<exists>m. float_mean (map Fin [2, 4, 6]) = Fin m
      \<and> \<bar>m - mean [2, 4, 6]\<bar> \<le> real (length [2, 4, 6 :: real] + 1) / 2 ^ 17"
    by blast
  then have "\<exists>m. float_mean [Fin 2, Fin 4, Fin 6] = Fin m \<and> \<bar>m - 4\<bar> \<le> 4 / 2 ^ 17"
    by (simp add: mean_def)
  with first show ?thesis
    by simp
qed

text \<open>
  Where the claim as first stated fails: three samples of 0.22 m/s (raw reading 7) have the
  arithmetic mean 0.22 m/s, and the drain returns the single-precision value just below it.
\<close>

lemma sample_022: "currentWindSpeedms 7 = Fin (7381975 / 33554432)"
proof -
  have "constrain (map_range 7 0 1023 0 3240) 0 3240 = 22"
    by (simp add: map_range_def c_div_def constrain_def Let_def)
  moreover have "f32 (22 / 100) = Fin (of_int 14763950 * pow2 (- 3 - int 24 + 1))"
    unfolding f32_def
    by (rule fp_round_eval) (simp_all add: pow2_def round_even_eval [of 14763950])
  ultimately show ?thesis
    by (simp add: currentWindSpeedms_def f32_small pow2_def)
qed

lemma sum_022:
  "f32 (7381975 / 33554432) = Fin (7381975 / 33554432)"
  "f32 (7381975 / 16777216) = Fin (7381975 / 16777216)"
  "f32 (22145925 / 33554432) = Fin (5536481 / 8388608)"
  "f32 (5536481 / 25165824) = Fin (14763949 / 67108864)"
proof -
  have "f32 (of_int 14763950 * pow2 (- 26)) = Fin (of_int 14763950 * pow2 (- 26))"
    unfolding f32_def by (rule fp_round_exact) (simp_all add: pow2_def)
  then show "f32 (7381975 / 33554432) = Fin (7381975 / 33554432)"
    by (simp add: pow2_def)
  have "f32 (of_int 14763950 * pow2 (- 25)) = Fin (of_int 14763950 * pow2 (- 25))"
    unfolding f32_def by (rule fp_round_exact) (simp_all add: pow2_def)
  then show "f32 (7381975 / 16777216) = Fin (7381975 / 16777216)"
    by (simp add: pow2_def)
  have "f32 (22145925 / 33554432) = Fin (of_int 11072962 * pow2 (- 1 - int 24 + 1))"
    unfolding f32_def
    by (rule fp_round_eval) (simp_all add: pow2_def round_even_eval [of 11072962])
  then show "f32 (22145925 / 33554432) = Fin (5536481 / 8388608)"
    by (simp add: pow2_def)
  have "f32 (5536481 / 25165824) = Fin (of_int 14763949 * pow2 (- 3 - int 24 + 1))"
    unfolding f32_def
    by (rule fp_round_eval) (simp_all add: pow2_def round_even_eval [of 14763949])
  then show "f32 (5536481 / 25165824) = Fin (14763949 / 67108864)"
    by (simp add: pow2_def)
qed

theorem wind_drain_float_mean_counterexample:
  "currentWindSpeedms 7 = Fin (7381975 / 33554432)
   \<and> mean [7381975 / 33554432, 7381975 / 33554432, 7381975 / 33554432] = 7381975 / 33554432
   \<and> fst (run_wind wind_init
        [Record (currentWindSpeedms 7), Record (currentWindSpeedms 7),
         Record (currentWindSpeedms 7), Drain])
       = [Fin (14763949 / 67108864)]
   \<and> (14763949 / 67108864 :: real) \<noteq> 7381975 / 33554432"
proof -
  have "sint (3 :: 32 word) = 3" by simp
  then show ?thesis
    by (simp add: sample_022 mean_def wind_init_def record_sample_def drainAverage_def
        sum_022 f32_small)
qed

subsection \<open>Integer mappings\<close>

lemma c_div_nonneg: "0 \<le> a \<Longrightarrow> 0 < b \<Longrightarrow> c_div a b = a div b"
  by (cases "a = 0") (simp_all add: c_div_def)

lemma c_div_nonpos_pos: "a \<le> 0 \<Longrightarrow> 0 < b \<Longrightarrow> c_div a b = - ((- a) div b)"
  by (cases "a = 0") (simp_all add: c_div_def)



lemma rain_map_below:
  "raw \<le> 500 \<Longrightarrow> map_range raw 500 4000 100 0 = 100 + ((500 - raw) * 100) div 3500"
  by (simp add: map_range_def Let_def c_div_nonneg algebra_simps)

lemma rain_map_above:
  "500 \<le> raw \<Longrightarrow> map_range raw 500 4000 100 0 = 100 - ((raw - 500) * 100) div 3500"
  by (simp add: map_range_def Let_def c_div_nonpos_pos algebra_simps)

lemma precipitation_wet_side:
  "raw \<le> WET_THRESHOLD \<Longrightarrow> precipitationPercentage raw = 100"
proof -
  assume a: "raw \<le> WET_THRESHOLD"
  then have "0 \<le> ((500 - raw) * 100) div 3500"
    by (simp add: WET_THRESHOLD_def)
  with a show ?thesis
    by (simp add: precipitationPercentage_def WET_THRESHOLD_def DRY_THRESHOLD_def
        rain_map_below constrain_def)
qed

lemma precipitation_between:
  assumes "WET_THRESHOLD \<le> raw" "raw \<le> DRY_THRESHOLD"
  shows "precipitationPercentage raw = 100 - ((raw - WET_THRESHOLD) * 100) div (DRY_THRESHOLD - WET_THRESHOLD)"
proof -
  from assms have "0 \<le> ((raw - 500) * 100) div 3500" "((raw - 500) * 100) div 3500 \<le> 100"
    by (simp_all add: WET_THRESHOLD_def DRY_THRESHOLD_def)
  with assms show ?thesis
    by (simp add: precipitationPercentage_def WET_THRESHOLD_def DRY_THRESHOLD_def
        rain_map_above constrain_def)
qed

lemma precipitation_dry_side:
  assumes "DRY_THRESHOLD \<le> raw"
  shows "precipitationPercentage raw = 0"
proof -
  from assms have "100 \<le> ((raw - 500) * 100) div 3500"
    by (simp add: DRY_THRESHOLD_def)
  with assms show ?thesis
    by (simp add: precipitationPercentage_def WET_THRESHOLD_def DRY_THRESHOLD_def
        rain_map_above constrain_def)
qed

lemma precipitation_range: "0 \<le> precipitationPercentage raw \<and> precipitationPercentage raw \<le> 100"
  by (simp add: precipitationPercentage_def constrain_def)

lemma precipitation_antimono:
  assumes "r1 \<le> r2"
  shows "precipitationPercentage r2 \<le> precipitationPercentage r1"
proof (cases "r1 \<le> WET_THRESHOLD")
  case True
  then show ?thesis using precipitation_range [of r2] by (simp add: precipitation_wet_side)
next
  case r1: False
  show ?thesis
  proof (cases "DRY_THRESHOLD \<le> r2")
    case True
    then show ?thesis using precipitation_range [of r1] by (simp add: precipitation_dry_side)
  next
    case False
    with r1 assms have b1: "WET_THRESHOLD \<le> r1" "r1 \<le> DRY_THRESHOLD"
      and b2: "WET_THRESHOLD \<le> r2" "r2 \<le> DRY_THRESHOLD"
      by simp_all
    have "((r1 - WET_THRESHOLD) * 100) div (DRY_THRESHOLD - WET_THRESHOLD)
        \<le> ((r2 - WET_THRESHOLD) * 100) div (DRY_THRESHOLD - WET_THRESHOLD)"
      using assms by (intro zdiv_mono1) (simp_all add: WET_THRESHOLD_def DRY_THRESHOLD_def)
    then show ?thesis
      by (simp add: precipitation_between [OF b1] precipitation_between [OF b2])
  qed
qed








text \<open>
  An ADC reading is a 16-bit unsigned number; for such readings no intermediate value of
  the three mappings leaves the range of a 32-bit \<open>long\<close>.
\<close>

lemma mappings_fit_long:
  assumes "0 \<le> raw" "raw < 65536"
  shows "fits_long ((raw - WET_THRESHOLD) * (0 - 100))"
    and "fits_long ((raw - BRIGHT_THRESHOLD) * (0 - 100))"
    and "fits_long ((raw - 0) * (3240 - 0))"
  using assms
  by (simp_all add: fits_long_def WET_THRESHOLD_def BRIGHT_THRESHOLD_def)

subsection \<open>Members of the telemetry record\<close>

lemma c_round_of_int: "c_round (of_int n) = of_int n"
proof -
  have "\<lfloor>real_of_int n + 1 / 2\<rfloor> = n"
    by (rule floor_unique) simp_all
  moreover have "\<lceil>real_of_int n - 1 / 2\<rceil> = n"
    by (rule ceiling_unique) simp_all
  ultimately show ?thesis
    by (simp add: c_round_def)
qed

lemma c_round_error: "\<bar>c_round x - x\<bar> \<le> 1 / 2"
proof (cases "0 \<le> x")
  case True
  have "real_of_int \<lfloor>x + 1 / 2\<rfloor> \<le> x + 1 / 2" "x + 1 / 2 < real_of_int \<lfloor>x + 1 / 2\<rfloor> + 1"
    by linarith+
  with True show ?thesis
    unfolding c_round_def by (simp only: if_True)
next
  case False
  have "x - 1 / 2 \<le> real_of_int \<lceil>x - 1 / 2\<rceil>" "real_of_int \<lceil>x - 1 / 2\<rceil> < x - 1 / 2 + 1"
    by linarith+
  with False show ?thesis
    unfolding c_round_def by (simp only: if_False)
qed

text \<open>Rounding to four places leaves an integer percentage as it is.\<close>

lemma round_places_int:
  assumes "\<bar>n\<bar> \<le> 100"
  shows "round_places 10000 (Fin (real_of_int n)) = Fin (real_of_int n)"
proof -
  have "\<bar>n * 10000\<bar> < 2 ^ 53" "\<bar>n\<bar> < 2 ^ 53"
    using assms by (simp_all add: abs_mult)
  then have a: "f64 (real_of_int (n * 10000)) = Fin (real_of_int (n * 10000))"
    and b: "f64 (real_of_int n) = Fin (real_of_int n)"
    by (simp_all only: f64_of_int)
  have c: "real_of_int n * 10000 = real_of_int (n * 10000)"
    by simp
  have "fmul f64 (Fin (real_of_int n)) (Fin 10000) = Fin (real_of_int (n * 10000))"
    using a by (simp only: fmul.simps c)
  then have "dround (fmul f64 (Fin (real_of_int n)) (Fin 10000)) = Fin (real_of_int (n * 10000))"
    by (simp only: dround.simps c_round_of_int)
  then show ?thesis
    using b by (simp add: round_places_def)
qed

lemma payload_precipitation:
  "\<bar>p\<bar> \<le> 100 \<Longrightarrow>
   map_of (telemetry_payload temp pressure humidity analogValue avg p) ''precipitation''
     = Some (JNum (Fin (real_of_int p)))"
  by (simp add: telemetry_payload_def Let_def round_places_int)


lemma payload_pressure:
  "map_of (telemetry_payload temp pressure humidity analogValue avg p) ''pressure''
     = (let normalized_pressure = reduceToMSL pressure temp STATION_ALTITUDE_METERS in
        if \<not> isnan normalized_pressure then Some (JNum (round_places 100 normalized_pressure))
        else if \<not> isnan pressure then Some (JNum (round_places 100 pressure))
        else None)"
  by (simp add: telemetry_payload_def Let_def)

lemma cycle_posts:
  assumes "currentDeviceMode s = MODE_CONFIGURED" "wifi_connected e"
    and "HttpPost srv mac doc \<in> set (fst (sensorTask_cycle e s))"
  shows "doc = telemetry_payload (fst (bme_readings e s)) (fst (snd (bme_readings e s)))
           (snd (snd (bme_readings e s))) (uint (photo_reading e))
           (if mutex_taken e then fst (drainAverage (wind s)) else Fin 0)
           (precipitationPercentage (uint (rain_reading e)))"
  using assms
  by (auto simp: sensorTask_cycle_def Let_def case_prod_beta send_outcome_def
      split: if_splits)

subsection \<open>Precipitation and brightness\<close>

text \<open>
  Claim C5. The precipitation percentage is 100 at the wet threshold and 0 at the dry
  threshold; between the thresholds it falls linearly with the raw reading (rounded to an
  integer by the truncating division) and never rises; at or below the wet threshold it is
  100 and at or above the dry threshold it is 0; it always lies in [0, 100], and that
  number is what the telemetry record reports.
\<close>

theorem precipitation_mapping:
  "precipitationPercentage WET_THRESHOLD = 100
   \<and> precipitationPercentage DRY_THRESHOLD = 0
   \<and> (WET_THRESHOLD \<le> raw \<and> raw \<le> DRY_THRESHOLD \<longrightarrow>
        precipitationPercentage raw =
          100 - ((raw - WET_THRESHOLD) * 100) div (DRY_THRESHOLD - WET_THRESHOLD))
   \<and> (r1 \<le> r2 \<longrightarrow> precipitationPercentage r2 \<le> precipitationPercentage r1)
   \<and> (raw \<le> WET_THRESHOLD \<longrightarrow> precipitationPercentage raw = 100)
   \<and> (DRY_THRESHOLD \<le> raw \<longrightarrow> precipitationPercentage raw = 0)
   \<and> 0 \<le> precipitationPercentage raw \<and> precipitationPercentage raw \<le> 100
   \<and> map_of (telemetry_payload temp pressure humidity analogValue avg
               (precipitationPercentage raw)) ''precipitation''
       = Some (JNum (Fin (real_of_int (precipitationPercentage raw))))"
proof -
  have "\<bar>precipitationPercentage raw\<bar> \<le> 100"
    using precipitation_range [of raw] by simp
  then show ?thesis
    using precipitation_wet_side [of WET_THRESHOLD] precipitation_dry_side [of DRY_THRESHOLD]
      precipitation_between [of raw] precipitation_antimono [of r1 r2]
      precipitation_wet_side [of raw] precipitation_dry_side [of raw]
      precipitation_range [of raw]
    by (simp add: payload_precipitation)
qed

theorem precipitation_mapping_witness:
  "precipitationPercentage 2250 = 50
   \<and> precipitationPercentage 3000 \<le> precipitationPercentage 1000
   \<and> precipitationPercentage 100 = 100
   \<and> precipitationPercentage 4095 = 0"
  using precipitation_mapping [of 2250 1000 3000] precipitation_mapping [of 100 0 0]
    precipitation_mapping [of 4095 0 0]
  by (simp add: WET_THRESHOLD_def DRY_THRESHOLD_def)







subsection \<open>Pressure reduction\<close>

text \<open>Within the range of the format the rounded value is finite and close.\<close>

lemma f64_finite: "\<bar>x\<bar> \<le> pow2 1023 \<Longrightarrow> f64 x = Fin (rnd 53 (- 1022) x)"
  unfolding f64_def by (rule fp_round_finite) simp_all

lemma f64_error:
  assumes "pow2 (- 1022) \<le> \<bar>x\<bar>"
  shows "\<bar>rnd 53 (- 1022) x - x\<bar> \<le> \<bar>x\<bar> * pow2 (- 53)"
  using rnd_rel_error [OF assms, of 53] by simp

lemma f64_between:
  assumes "lo \<le> x" "x \<le> hi" "pow2 (- 1022) \<le> lo" "hi \<le> pow2 1023"
    and "lo' \<le> lo * (1 - pow2 (- 53))" "hi * (1 + pow2 (- 53)) \<le> hi'"
  shows "\<exists>y. f64 x = Fin y \<and> lo' \<le> y \<and> y \<le> hi'"
proof -
  have pos: "0 < lo"
    using assms(3) pow2_pos [of "- 1022"] by linarith
  with assms(1) have x: "0 < x" "\<bar>x\<bar> = x"
    by simp_all
  have fin: "f64 x = Fin (rnd 53 (- 1022) x)"
    using assms(2,4) x by (intro f64_finite) simp
  have "\<bar>rnd 53 (- 1022) x - x\<bar> \<le> x * pow2 (- 53)"
    using f64_error [of x] assms(1,3) x by simp
  then have y: "x * (1 - pow2 (- 53)) \<le> rnd 53 (- 1022) x"
      "rnd 53 (- 1022) x \<le> x * (1 + pow2 (- 53))"
    by (simp_all add: algebra_simps abs_le_iff)
  have u: "0 \<le> 1 - pow2 (- 53)" "0 \<le> 1 + pow2 (- 53)"
    by (simp_all add: pow2_def)
  have "lo * (1 - pow2 (- 53)) \<le> x * (1 - pow2 (- 53))"
    using assms(1) u(1) by (rule mult_right_mono)
  moreover have "x * (1 + pow2 (- 53)) \<le> hi * (1 + pow2 (- 53))"
    using assms(2) u(2) by (rule mult_right_mono)
  ultimately show ?thesis
    using fin y assms(5,6) by auto
qed

text \<open>The constants, as the literals' nearest binary64 values.\<close>

lemma G_CONST_value:
  "\<exists>g. G_CONST = Fin g \<and> 980664 / 100000 \<le> g \<and> g \<le> 980666 / 100000"
  unfolding G_CONST_def
  by (rule f64_between [of "980665 / 100000" _ "980665 / 100000"]) (simp_all add: pow2_def)

lemma MOLAR_MASS_AIR_value:
  "\<exists>m. MOLAR_MASS_AIR = Fin m \<and> 289643 / 10000000 \<le> m \<and> m \<le> 289645 / 10000000"
  unfolding MOLAR_MASS_AIR_def
  by (rule f64_between [of "289644 / 10000000" _ "289644 / 10000000"]) (simp_all add: pow2_def)

lemma UNIV_GAS_CONST_value:
  "\<exists>r. UNIV_GAS_CONST = Fin r \<and> 831446 / 100000 \<le> r \<and> r \<le> 831448 / 100000"
  unfolding UNIV_GAS_CONST_def
  by (rule f64_between [of "831447 / 100000" _ "831447 / 100000"]) (simp_all add: pow2_def)

lemma KELVIN_OFFSET_value:
  "\<exists>c. KELVIN_OFFSET = Fin c \<and> 273149 / 1000 \<le> c \<and> c \<le> 273151 / 1000"
  unfolding KELVIN_OFFSET_def
  by (rule f64_between [of "27315 / 100" _ "27315 / 100"]) (simp_all add: pow2_def)

text \<open>At altitude 0 the numerator of the exponent is 0.\<close>

lemma numerator_zero: "fmul f64 (fmul f64 G_CONST MOLAR_MASS_AIR) (Fin 0) = Fin 0"
proof -
  obtain g where g: "G_CONST = Fin g" "980664 / 100000 \<le> g" "g \<le> 980666 / 100000"
    using G_CONST_value by blast
  obtain m where m: "MOLAR_MASS_AIR = Fin m" "289643 / 10000000 \<le> m" "m \<le> 289645 / 10000000"
    using MOLAR_MASS_AIR_value by blast
  have "0 \<le> g" "g \<le> 10" "0 \<le> m" "m \<le> 1"
    using g(2,3) m(2,3) by simp_all
  then have "0 \<le> g * m" "g * m \<le> 10 * 1"
    using mult_mono [of g 10 m 1] by simp_all
  then have "\<bar>g * m\<bar> \<le> pow2 1023"
    by (simp add: pow2_def)
  then have "f64 (g * m) = Fin (rnd 53 (- 1022) (g * m))"
    by (rule f64_finite)
  then show ?thesis
    by (simp add: g(1) m(1) f64_def)
qed

text \<open>
  The denominator \<open>R * T\<close> is not zero and not NaN as soon as the Kelvin temperature is
  neither: a non-zero binary64 value times the gas constant does not underflow to zero.
\<close>

lemma denominator_cases:
  assumes "T_k \<noteq> NaN" "T_k \<noteq> Fin 0" "T_k = PInf \<or> T_k = NInf \<or> (\<exists>x. T_k = f64 x)"
  shows "fmul f64 UNIV_GAS_CONST T_k = PInf \<or> fmul f64 UNIV_GAS_CONST T_k = NInf
     \<or> (\<exists>d. fmul f64 UNIV_GAS_CONST T_k = Fin d \<and> d \<noteq> 0)"
proof -
  obtain r where r: "UNIV_GAS_CONST = Fin r" "831446 / 100000 \<le> r" "r \<le> 831448 / 100000"
    using UNIV_GAS_CONST_value by blast
  have rpos: "0 < r" "r \<noteq> 0" "1 \<le> r"
    using r(2) by simp_all
  show ?thesis
  proof (cases T_k)
    case NaN
    with assms(1) show ?thesis by simp
  next
    case PInf
    with rpos show ?thesis unfolding r(1) by simp
  next
    case NInf
    with rpos show ?thesis unfolding r(1) by simp
  next
    case (Fin y)
    with assms(2) have y: "y \<noteq> 0" by simp
    from assms(3) Fin obtain x where "f64 x = Fin y" by auto
    then have "pow2 (- 1022 - int 53 + 1) \<le> \<bar>y\<bar>"
      unfolding f64_def using y by (rule fp_round_multiple)
    moreover have "\<bar>y\<bar> * 1 \<le> \<bar>y\<bar> * r"
      using rpos(3) by (intro mult_left_mono) simp_all
    ultimately have "pow2 (- 1022 - int 53 + 1) \<le> \<bar>r * y\<bar>"
      using rpos(1) by (simp add: abs_mult mult.commute)
    then have "fp_round 53 (- 1022) 1023 (r * y) \<noteq> Fin 0"
      by (rule fp_round_nonzero) simp
    then have "f64 (r * y) \<noteq> Fin 0"
      by (simp add: f64_def)
    moreover have "f64 (r * y) \<noteq> NaN"
      by (simp add: f64_def)
    ultimately show ?thesis
      unfolding r(1) Fin by (cases "f64 (r * y)") auto
  qed
qed

lemma kelvin_cases:
  assumes "t \<noteq> NaN"
  shows "fadd f64 t KELVIN_OFFSET \<noteq> NaN
    \<and> (fadd f64 t KELVIN_OFFSET = PInf \<or> fadd f64 t KELVIN_OFFSET = NInf
       \<or> (\<exists>x. fadd f64 t KELVIN_OFFSET = f64 x))"
proof -
  obtain c where c: "KELVIN_OFFSET = Fin c"
    using KELVIN_OFFSET_value by blast
  show ?thesis
    using assms by (cases t) (auto simp: c f64_def)
qed

lemma exponent_zero:
  assumes "t \<noteq> NaN" "fadd f64 t KELVIN_OFFSET \<noteq> Fin 0"
  shows "fdiv f64 (fmul f64 (fmul f64 G_CONST MOLAR_MASS_AIR) (Fin 0))
           (fmul f64 UNIV_GAS_CONST (fadd f64 t KELVIN_OFFSET)) = Fin 0"
proof -
  from kelvin_cases [OF assms(1)] assms(2)
  have "fmul f64 UNIV_GAS_CONST (fadd f64 t KELVIN_OFFSET) = PInf
     \<or> fmul f64 UNIV_GAS_CONST (fadd f64 t KELVIN_OFFSET) = NInf
     \<or> (\<exists>d. fmul f64 UNIV_GAS_CONST (fadd f64 t KELVIN_OFFSET) = Fin d \<and> d \<noteq> 0)"
    by (intro denominator_cases) auto
  then show ?thesis
    by (auto simp: numerator_zero f64_def)
qed

lemma f64_one: "f64 1 = Fin 1"
  using f64_of_int [of 1] by simp

lemma dexp_zero: "dexp (Fin 0) = Fin 1"
  by (simp add: f64_one)

text \<open>
  Every finite binary32 value is \<open>m * 2 ^ k\<close> with \<open>\<bar>m\<bar> < 2 ^ 24\<close> and \<open>- 149 \<le> k \<le> 104\<close>. For
  such a pressure the conversion to pascals and back is exact in binary64.
\<close>

lemma float_times_100:
  assumes "\<bar>m\<bar> < 2 ^ 24" "- 149 \<le> k" "k \<le> 104"
  shows "f64 (of_int m * pow2 k * 100) = Fin (of_int m * pow2 k * 100)"
    and "f64 (of_int m * pow2 k) = Fin (of_int m * pow2 k)"
proof -
  have k: "pow2 k \<le> pow2 104"
    using assms(3) by (rule pow2_mono)
  have m: "\<bar>real_of_int m\<bar> < 2 ^ 24"
    using assms(1) by (metis of_int_abs of_int_less_iff of_int_numeral of_int_power)
  have m100: "\<bar>m * 100\<bar> < 2 ^ 53"
    using assms(1) by (simp add: abs_mult)
  have m53: "\<bar>m\<bar> < 2 ^ 53"
    using assms(1) by simp
  have "\<bar>real_of_int m\<bar> * pow2 k \<le> 2 ^ 24 * pow2 104"
    using m k by (intro mult_mono) simp_all
  then have small: "\<bar>real_of_int m * pow2 k\<bar> \<le> 2 ^ 24 * pow2 104"
    by (simp only: abs_mult abs_pow2)
  moreover have "\<bar>real_of_int (m * 100) * pow2 k\<bar> = 100 * \<bar>real_of_int m * pow2 k\<bar>"
    by (simp add: abs_mult)
  ultimately have "\<bar>real_of_int (m * 100) * pow2 k\<bar> \<le> 100 * (2 ^ 24 * pow2 104)"
    by linarith
  also have "\<dots> < pow2 (1023 + 1)"
    by (simp add: pow2_def)
  finally have "fp_round 53 (- 1022) 1023 (of_int (m * 100) * pow2 k)
      = Fin (of_int (m * 100) * pow2 k)"
    using m100 assms(2) by (intro fp_round_exact) simp_all
  moreover have "real_of_int (m * 100) * pow2 k = of_int m * pow2 k * 100"
    by simp
  ultimately show "f64 (of_int m * pow2 k * 100) = Fin (of_int m * pow2 k * 100)"
    by (simp only: f64_def)
  have "2 ^ 24 * pow2 104 < pow2 (1023 + 1)"
    by (simp add: pow2_def)
  with small have "\<bar>real_of_int m * pow2 k\<bar> < pow2 (1023 + 1)"
    by linarith
  then have "fp_round 53 (- 1022) 1023 (of_int m * pow2 k) = Fin (of_int m * pow2 k)"
    using m53 assms(2) by (intro fp_round_exact) simp_all
  then show "f64 (of_int m * pow2 k) = Fin (of_int m * pow2 k)"
    by (simp add: f64_def)
qed

lemma reduceToMSL_sea_level:
  assumes "t \<noteq> NaN" "fadd f64 t KELVIN_OFFSET \<noteq> Fin 0"
    and "f64 (p * 100) = Fin (p * 100)" "f64 p = Fin p"
  shows "reduceToMSL (Fin p) t (Fin 0) = Fin p"
  using assms(1,3,4)
  by (simp add: reduceToMSL_def isnan_def Let_def exponent_zero [OF assms(1,2)] f64_one)

lemma reduceToMSL_nan:
  "reduceToMSL NaN t h = NaN" "reduceToMSL p NaN h = NaN"
  by (simp_all add: reduceToMSL_def isnan_def)

text \<open>
  Error bookkeeping. \<open>a\<close> approximates a positive \<open>b\<close> within \<open>k\<close> units when
  \<open>\<bar>a - b\<bar> \<le> k * 2\<^sup>-\<^sup>5\<^sup>2 * b\<close>. Rounding to binary64 costs one unit, a product or a quotient
  adds the units of its operands and one more, and the exponential of an argument of at
  most 2 multiplies them by 4.
\<close>

lemma units_small:
  assumes "0 \<le> k" "k \<le> 3000"
  shows "k * pow2 (- 52) \<le> 1 / 2 ^ 40" "0 \<le> k * pow2 (- 52)"
proof -
  have "k * pow2 (- 52) \<le> 3000 * pow2 (- 52)"
    using assms(2) by (intro mult_right_mono) simp_all
  also have "\<dots> \<le> 1 / 2 ^ 40"
    by (simp add: pow2_def)
  finally show "k * pow2 (- 52) \<le> 1 / 2 ^ 40" .
  show "0 \<le> k * pow2 (- 52)"
    using assms(1) by simp
qed

lemma approx_bounds:
  assumes "\<bar>a - b\<bar> \<le> k * pow2 (- 52) * b" "0 \<le> k" "k \<le> 3000" "0 < b"
  shows "b / 2 \<le> a" "a \<le> 2 * b" "0 < a" "\<bar>a\<bar> \<le> b + k * pow2 (- 52) * b"
proof -
  have "k * pow2 (- 52) * b \<le> (1 / 2 ^ 40) * b"
    using units_small(1) [OF assms(2,3)] assms(4) by (intro mult_right_mono) simp_all
  then have small: "k * pow2 (- 52) * b \<le> b / 2"
    using assms(4) by simp
  with assms(1) show "b / 2 \<le> a" "a \<le> 2 * b"
    by linarith+
  with assms(4) show "0 < a"
    by linarith
  from assms(1) show "\<bar>a\<bar> \<le> b + k * pow2 (- 52) * b"
    using assms(4) by linarith
qed

lemma approx_round:
  assumes "\<bar>a - b\<bar> \<le> k * pow2 (- 52) * b" "0 \<le> k" "k \<le> 3000"
    and "1 / 2 ^ 30 \<le> b" "b \<le> 2 ^ 30"
  shows "\<exists>y. f64 a = Fin y \<and> \<bar>y - b\<bar> \<le> (k + 1) * pow2 (- 52) * b"
proof -
  have bpos: "0 < b"
    using assms(4) by (rule less_le_trans [rotated]) simp
  note ab = approx_bounds [OF assms(1-3) bpos]
  have "a \<le> 2 * 2 ^ 30"
    using ab(2) assms(5) by linarith
  also have "\<dots> \<le> pow2 1023"
    by (simp add: pow2_def)
  finally have "\<bar>a\<bar> \<le> pow2 1023"
    using ab(3) by simp
  then have fin: "f64 a = Fin (rnd 53 (- 1022) a)"
    by (rule f64_finite)
  have "pow2 (- 1022) \<le> (1 / 2 ^ 30) / 2"
    by (simp add: pow2_def)
  also have "\<dots> \<le> b / 2"
    using assms(4) by simp
  also note ab(1)
  finally have "pow2 (- 1022) \<le> \<bar>a\<bar>"
    using ab(3) by simp
  then have "\<bar>rnd 53 (- 1022) a - a\<bar> \<le> \<bar>a\<bar> * pow2 (- 53)"
    by (rule f64_error)
  also have "\<dots> = a * (pow2 (- 52) / 2)"
    using ab(3) by (simp add: pow2_def)
  also have "\<dots> \<le> (2 * b) * (pow2 (- 52) / 2)"
    using ab(2) by (intro mult_right_mono) simp_all
  finally have "\<bar>rnd 53 (- 1022) a - a\<bar> \<le> pow2 (- 52) * b"
    by (simp add: mult.commute)
  with assms(1) have "\<bar>rnd 53 (- 1022) a - b\<bar> \<le> k * pow2 (- 52) * b + pow2 (- 52) * b"
    by linarith
  then have "\<bar>rnd 53 (- 1022) a - b\<bar> \<le> (k + 1) * pow2 (- 52) * b"
    by (simp add: algebra_simps)
  with fin show ?thesis
    by blast
qed

lemma approx_mult:
  assumes "\<bar>a - b\<bar> \<le> j * pow2 (- 52) * b" "0 \<le> j" "j \<le> 1000" "0 < b"
    and "\<bar>c - d\<bar> \<le> k * pow2 (- 52) * d" "0 \<le> k" "k \<le> 1000" "0 < d"
  shows "\<bar>a * c - b * d\<bar> \<le> (j + k + 1) * pow2 (- 52) * (b * d)"
proof -
  define e where "e = pow2 (- 52)"
  have e: "0 < e" by (simp add: e_def)
  have k3: "k \<le> 3000" using assms(7) by simp
  have ke: "k * e \<le> 1 / 2 ^ 40" "0 \<le> k * e"
    using units_small [OF assms(6) k3] by (simp_all add: e_def)
  have c: "\<bar>c\<bar> \<le> d + k * e * d"
    using approx_bounds(4) [OF assms(5,6) k3 assms(8)] by (simp add: e_def)
  have A: "\<bar>a - b\<bar> \<le> j * e * b"
    using assms(1) by (simp add: e_def)
  have C: "\<bar>c - d\<bar> \<le> k * e * d"
    using assms(5) by (simp add: e_def)
  have jeb: "0 \<le> j * e * b"
    using assms(2,4) e by simp
  have "a * c - b * d = (a - b) * c + b * (c - d)"
    by (simp add: algebra_simps)
  then have "\<bar>a * c - b * d\<bar> \<le> \<bar>a - b\<bar> * \<bar>c\<bar> + b * \<bar>c - d\<bar>"
    using assms(4) abs_triangle_ineq [of "(a - b) * c" "b * (c - d)"] by (simp add: abs_mult)
  also have "\<dots> \<le> (j * e * b) * (d + k * e * d) + b * (k * e * d)"
    using A c C jeb assms(4) by (intro add_mono mult_mono mult_left_mono) simp_all
  also have "\<dots> = (j + k) * e * (b * d) + (j * (k * e)) * (e * (b * d))"
    by (simp add: algebra_simps)
  also have "\<dots> \<le> (j + k) * e * (b * d) + 1 * (e * (b * d))"
  proof -
    have "j * (k * e) \<le> 1000 * (1 / 2 ^ 40)"
      using assms(2,3) ke by (intro mult_mono) simp_all
    then have "j * (k * e) \<le> 1"
      by simp
    moreover have "0 \<le> e * (b * d)"
      using e assms(4,8) by simp
    ultimately have "(j * (k * e)) * (e * (b * d)) \<le> 1 * (e * (b * d))"
      by (rule mult_right_mono)
    then show ?thesis by simp
  qed
  also have "\<dots> = (j + k + 1) * e * (b * d)"
    by (simp add: algebra_simps)
  finally show ?thesis
    by (simp add: e_def)
qed

lemma approx_divide:
  assumes "\<bar>a - b\<bar> \<le> j * pow2 (- 52) * b" "0 \<le> j" "j \<le> 1000" "0 < b"
    and "\<bar>c - d\<bar> \<le> k * pow2 (- 52) * d" "0 \<le> k" "k \<le> 1000" "0 < d"
  shows "\<bar>a / c - b / d\<bar> \<le> (j + k + 1) * pow2 (- 52) * (b / d)"
proof -
  define e where "e = pow2 (- 52)"
  have e: "0 < e" by (simp add: e_def)
  have k3: "k \<le> 3000" using assms(7) by simp
  have ke: "k * e \<le> 1 / 2 ^ 40" "0 \<le> k * e"
    using units_small [OF assms(6) k3] by (simp_all add: e_def)
  have cpos: "0 < c"
    using approx_bounds(3) [OF assms(5,6) k3 assms(8)] .
  have A: "\<bar>a - b\<bar> \<le> j * e * b"
    using assms(1) by (simp add: e_def)
  have C: "\<bar>c - d\<bar> \<le> k * e * d"
    using assms(5) by (simp add: e_def)
  have clow: "d - k * e * d \<le> c"
    using C by linarith
  define w where "w = e * b"
  have w: "0 \<le> w" using e assms(4) by (simp add: w_def)
  have "a * d - b * c = (a - b) * d - b * (c - d)"
    by (simp add: algebra_simps)
  then have "\<bar>a * d - b * c\<bar> \<le> \<bar>a - b\<bar> * d + b * \<bar>c - d\<bar>"
    using assms(4,8) abs_triangle_ineq4 [of "(a - b) * d" "b * (c - d)"] by (simp add: abs_mult)
  also have "\<dots> \<le> (j * e * b) * d + b * (k * e * d)"
    using A C assms(4,8) by (intro add_mono mult_right_mono mult_left_mono) simp_all
  also have "\<dots> = (j + k) * w * d"
    by (simp add: algebra_simps w_def)
  finally have num: "\<bar>a * d - b * c\<bar> \<le> (j + k) * w * d" .
  have "(j + k) * (k * e) \<le> 2000 * (1 / 2 ^ 40)"
    using assms(2,3,6,7) ke by (intro mult_mono) simp_all
  then have "(j + k + 1) * (k * e) \<le> 1"
    using ke(1) by (simp add: algebra_simps)
  then have "(j + k + 1) * (k * e) * d \<le> 1 * d"
    using assms(8) by (intro mult_right_mono) simp_all
  then have "(j + k) * d \<le> (j + k + 1) * (d - k * e * d)"
    by (simp add: algebra_simps)
  also have "\<dots> \<le> (j + k + 1) * c"
    using clow assms(2,6) by (intro mult_left_mono) simp_all
  finally have "(j + k) * d * w \<le> (j + k + 1) * c * w"
    using w by (rule mult_right_mono)
  with num have key: "\<bar>a * d - b * c\<bar> \<le> (j + k + 1) * w * c"
    by (simp add: mult_ac)
  have "a / c - b / d = (a * d - b * c) / (c * d)"
    using cpos assms(8) by (simp add: field_simps)
  then have "\<bar>a / c - b / d\<bar> = \<bar>a * d - b * c\<bar> / (c * d)"
    using cpos assms(8) by (simp add: abs_mult)
  also have "\<dots> \<le> ((j + k + 1) * w * c) / (c * d)"
    using key cpos assms(8) by (intro divide_right_mono) simp_all
  also have "\<dots> = (j + k + 1) * e * (b / d)"
    using cpos assms(8) by (simp add: w_def)
  finally show ?thesis
    by (simp add: e_def)
qed

lemma exp_near_one:
  fixes d :: real
  assumes "\<bar>d\<bar> \<le> 1 / 2"
  shows "\<bar>exp d - 1\<bar> \<le> 2 * \<bar>d\<bar>"
proof (cases "0 \<le> d")
  case True
  with assms have "exp d \<le> 1 + 2 * d"
    by (intro real_exp_bound_lemma) simp_all
  moreover have "1 \<le> exp d"
    using True by simp
  ultimately show ?thesis
    using True by linarith
next
  case False
  have "1 + d \<le> exp d"
    by (rule exp_ge_add_one_self)
  moreover have "exp d \<le> 1"
    using False by simp
  ultimately show ?thesis
    using False by linarith
qed

lemma approx_exp:
  assumes "\<bar>x' - x\<bar> \<le> k * pow2 (- 52) * x" "0 \<le> k" "k \<le> 500" "0 < x" "x \<le> 2"
  shows "\<bar>exp x' - exp x\<bar> \<le> (4 * k) * pow2 (- 52) * exp x"
proof -
  define e where "e = pow2 (- 52)"
  have k3: "k \<le> 3000" using assms(3) by simp
  have ke: "k * e \<le> 1 / 2 ^ 40" "0 \<le> k * e"
    using units_small [OF assms(2) k3] by (simp_all add: e_def)
  have "k * e * x \<le> k * e * 2"
    using assms(5) ke(2) by (rule mult_left_mono)
  with assms(1) have d: "\<bar>x' - x\<bar> \<le> 2 * (k * e)"
    by (simp add: e_def)
  with ke(1) have "\<bar>x' - x\<bar> \<le> 1 / 2"
    by simp
  then have "\<bar>exp (x' - x) - 1\<bar> \<le> 2 * \<bar>x' - x\<bar>"
    by (rule exp_near_one)
  with d have near: "\<bar>exp (x' - x) - 1\<bar> \<le> 4 * k * e"
    by simp
  have "exp x' - exp x = exp x * (exp (x' - x) - 1)"
    by (simp add: exp_diff algebra_simps)
  then have "\<bar>exp x' - exp x\<bar> = exp x * \<bar>exp (x' - x) - 1\<bar>"
    by (simp add: abs_mult)
  also have "\<dots> \<le> exp x * (4 * k * e)"
    using near by (intro mult_left_mono) simp_all
  finally show ?thesis
    by (simp add: e_def mult_ac)
qed

text \<open>
  The reduction in its working range: the result is finite and agrees with the formula of
  the spec within 62 units of \<open>2\<^sup>-\<^sup>5\<^sup>2\<close>.
\<close>

lemma reduceToMSL_accuracy:
  assumes p: "1 \<le> p" "p \<le> 2000" and t: "- 100 \<le> t" "t \<le> 100"
    and h: "1 \<le> h" "h \<le> 10000"
  shows "\<exists>v. reduceToMSL (Fin p) (Fin t) (Fin h) = Fin v
     \<and> \<bar>v - barometric p t h\<bar> \<le> 62 * pow2 (- 52) * barometric p t h"
proof -
  define gE :: real where "gE = 980665 / 100000"
  define mE :: real where "mE = 289644 / 10000000"
  define rE :: real where "rE = 831447 / 100000"
  define cE :: real where "cE = 27315 / 100"
  define b1 where "b1 = gE * mE"
  define b2 where "b2 = b1 * h"
  define b3 where "b3 = t + cE"
  define b4 where "b4 = rE * b3"
  define b5 where "b5 = b2 / b4"
  define b6 where "b6 = exp b5"
  define b7 where "b7 = p * 100"
  define b8 where "b8 = b7 * b6"
  define b9 where "b9 = b8 / 100"
  have gE: "0 < gE" "1 / 2 ^ 30 \<le> gE" "gE \<le> 2 ^ 30"
    by (simp_all add: gE_def)
  have mE: "0 < mE" "1 / 2 ^ 30 \<le> mE" "mE \<le> 2 ^ 30"
    by (simp_all add: mE_def)
  have rE: "0 < rE" "1 / 2 ^ 30 \<le> rE" "rE \<le> 2 ^ 30"
    by (simp_all add: rE_def)
  have cE: "0 < cE" "1 / 2 ^ 30 \<le> cE" "cE \<le> 2 ^ 30"
    by (simp_all add: cE_def)
  have b1: "0 < b1" "28 / 100 \<le> b1" "b1 \<le> 285 / 1000"
    by (simp_all add: b1_def gE_def mE_def)
  have hb: "b1 * 1 \<le> b1 * h" "b1 * h \<le> b1 * 10000"
    using h b1(1) by (auto intro!: mult_left_mono)
  have b2: "0 < b2" "28 / 100 \<le> b2" "b2 \<le> 2850"
    unfolding b2_def using hb b1 by linarith+
  have b3: "0 < b3" "173 \<le> b3" "b3 \<le> 374"
    using t by (simp_all add: b3_def cE_def)
  have b4: "0 < b4" "1438 \<le> b4" "b4 \<le> 3110"
    using b3 by (simp_all add: b4_def rE_def)
  have "b2 \<le> 2 * b4" "(1 / 2 ^ 30) * b4 \<le> b2"
    using b2 b4 by simp_all
  with b4(1) have b5: "1 / 2 ^ 30 \<le> b5" "b5 \<le> 2"
    by (simp_all add: b5_def pos_le_divide_eq pos_divide_le_eq)
  have b5pos: "0 < b5"
    using b2(1) b4(1) by (simp add: b5_def)
  have "exp (2 :: real) = exp 1 * exp 1"
    by (simp add: exp_add [symmetric])
  also have "\<dots> \<le> 3 * 3"
    by (intro mult_mono exp_le) simp_all
  finally have exp2: "exp (2 :: real) \<le> 9"
    by simp
  have "exp b5 \<le> exp 2"
    using b5(2) by simp
  with exp2 have "exp b5 \<le> 9"
    by linarith
  then have b6: "0 < b6" "1 \<le> b6" "b6 \<le> 9"
    using b5pos by (simp_all add: b6_def)
  have b7: "0 < b7" "100 \<le> b7" "b7 \<le> 200000"
    using p by (simp_all add: b7_def)
  have "100 * 1 \<le> b7 * b6" "b7 * b6 \<le> 200000 * 9"
    using b6 b7 by (intro mult_mono; simp)+
  then have b8: "0 < b8" "100 \<le> b8" "b8 \<le> 1800000"
    by (simp_all add: b8_def)
  have ranges: "1 / 2 ^ 30 \<le> b1" "b1 \<le> 2 ^ 30" "1 / 2 ^ 30 \<le> b2" "b2 \<le> 2 ^ 30"
      "1 / 2 ^ 30 \<le> b3" "b3 \<le> 2 ^ 30" "1 / 2 ^ 30 \<le> b4" "b4 \<le> 2 ^ 30"
      "b5 \<le> 2 ^ 30" "1 / 2 ^ 30 \<le> b6" "b6 \<le> 2 ^ 30" "1 / 2 ^ 30 \<le> b7" "b7 \<le> 2 ^ 30"
      "1 / 2 ^ 30 \<le> b8" "b8 \<le> 2 ^ 30" "1 / 2 ^ 30 \<le> b9" "b9 \<le> 2 ^ 30" "0 < b9"
    using b1 b2 b3 b4 b5 b6 b7 b8 by (simp_all add: b9_def)
  have exact: "\<bar>gE - gE\<bar> \<le> 0 * pow2 (- 52) * gE" "\<bar>mE - mE\<bar> \<le> 0 * pow2 (- 52) * mE"
      "\<bar>rE - rE\<bar> \<le> 0 * pow2 (- 52) * rE" "\<bar>cE - cE\<bar> \<le> 0 * pow2 (- 52) * cE"
      "\<bar>h - h\<bar> \<le> 0 * pow2 (- 52) * h" "\<bar>b7 - b7\<bar> \<le> 0 * pow2 (- 52) * b7"
      "\<bar>100 - 100\<bar> \<le> 0 * pow2 (- 52) * (100 :: real)"
    by simp_all
  have hpos: "0 < h" using h(1) by simp
  txt \<open>The four constants.\<close>
  have "\<exists>y. f64 gE = Fin y \<and> \<bar>y - gE\<bar> \<le> (0 + 1) * pow2 (- 52) * gE"
    using exact(1) _ _ gE(2,3) by (rule approx_round) simp_all
  then obtain g where g: "G_CONST = Fin g" "\<bar>g - gE\<bar> \<le> 1 * pow2 (- 52) * gE"
    by (auto simp: G_CONST_def gE_def)
  have "\<exists>y. f64 mE = Fin y \<and> \<bar>y - mE\<bar> \<le> (0 + 1) * pow2 (- 52) * mE"
    using exact(2) _ _ mE(2,3) by (rule approx_round) simp_all
  then obtain m where m: "MOLAR_MASS_AIR = Fin m" "\<bar>m - mE\<bar> \<le> 1 * pow2 (- 52) * mE"
    by (auto simp: MOLAR_MASS_AIR_def mE_def)
  have "\<exists>y. f64 rE = Fin y \<and> \<bar>y - rE\<bar> \<le> (0 + 1) * pow2 (- 52) * rE"
    using exact(3) _ _ rE(2,3) by (rule approx_round) simp_all
  then obtain r where r: "UNIV_GAS_CONST = Fin r" "\<bar>r - rE\<bar> \<le> 1 * pow2 (- 52) * rE"
    by (auto simp: UNIV_GAS_CONST_def rE_def)
  have "\<exists>y. f64 cE = Fin y \<and> \<bar>y - cE\<bar> \<le> (0 + 1) * pow2 (- 52) * cE"
    using exact(4) _ _ cE(2,3) by (rule approx_round) simp_all
  then obtain c where c: "KELVIN_OFFSET = Fin c" "\<bar>c - cE\<bar> \<le> 1 * pow2 (- 52) * cE"
    by (auto simp: KELVIN_OFFSET_def cE_def)
  txt \<open>\<open>G_CONST * MOLAR_MASS_AIR\<close>\<close>
  have "\<bar>g * m - gE * mE\<bar> \<le> (1 + 1 + 1) * pow2 (- 52) * (gE * mE)"
    using g(2) _ _ gE(1) m(2) _ _ mE(1) by (rule approx_mult) simp_all
  then have "\<bar>g * m - b1\<bar> \<le> 3 * pow2 (- 52) * b1"
    by (simp add: b1_def)
  then have "\<exists>y. f64 (g * m) = Fin y \<and> \<bar>y - b1\<bar> \<le> (3 + 1) * pow2 (- 52) * b1"
    using _ _ ranges(1,2) by (rule approx_round) simp_all
  then obtain gm where gm: "f64 (g * m) = Fin gm" "\<bar>gm - b1\<bar> \<le> 4 * pow2 (- 52) * b1"
    by auto
  txt \<open>\<open>... * station_altitude_m\<close>\<close>
  have "\<bar>gm * h - b1 * h\<bar> \<le> (4 + 0 + 1) * pow2 (- 52) * (b1 * h)"
    using gm(2) _ _ b1(1) exact(5) _ _ hpos by (rule approx_mult) simp_all
  then have "\<bar>gm * h - b2\<bar> \<le> 5 * pow2 (- 52) * b2"
    by (simp add: b2_def)
  then have "\<exists>y. f64 (gm * h) = Fin y \<and> \<bar>y - b2\<bar> \<le> (5 + 1) * pow2 (- 52) * b2"
    using _ _ ranges(3,4) by (rule approx_round) simp_all
  then obtain n where n: "f64 (gm * h) = Fin n" "\<bar>n - b2\<bar> \<le> 6 * pow2 (- 52) * b2"
    by auto
  txt \<open>\<open>station_temperature_c + 273.15\<close>\<close>
  have "cE \<le> 2 * b3"
    using b3(2) by (simp add: cE_def)
  then have "pow2 (- 52) * cE \<le> pow2 (- 52) * (2 * b3)"
    by (intro mult_left_mono) simp_all
  then have "1 * pow2 (- 52) * cE \<le> 2 * pow2 (- 52) * b3"
    by (simp add: algebra_simps)
  moreover have "\<bar>(t + c) - b3\<bar> = \<bar>c - cE\<bar>"
    by (simp add: b3_def)
  ultimately have "\<bar>(t + c) - b3\<bar> \<le> 2 * pow2 (- 52) * b3"
    using c(2) by linarith
  then have "\<exists>y. f64 (t + c) = Fin y \<and> \<bar>y - b3\<bar> \<le> (2 + 1) * pow2 (- 52) * b3"
    using _ _ ranges(5,6) by (rule approx_round) simp_all
  then obtain k where k: "f64 (t + c) = Fin k" "\<bar>k - b3\<bar> \<le> 3 * pow2 (- 52) * b3"
    by auto
  txt \<open>\<open>UNIV_GAS_CONST * station_temperature_k\<close>\<close>
  have "\<bar>r * k - rE * b3\<bar> \<le> (1 + 3 + 1) * pow2 (- 52) * (rE * b3)"
    using r(2) _ _ rE(1) k(2) _ _ b3(1) by (rule approx_mult) simp_all
  then have "\<bar>r * k - b4\<bar> \<le> 5 * pow2 (- 52) * b4"
    by (simp add: b4_def)
  then have "\<exists>y. f64 (r * k) = Fin y \<and> \<bar>y - b4\<bar> \<le> (5 + 1) * pow2 (- 52) * b4"
    using _ _ ranges(7,8) by (rule approx_round) simp_all
  then obtain d where d: "f64 (r * k) = Fin d" "\<bar>d - b4\<bar> \<le> 6 * pow2 (- 52) * b4"
    by auto
  have dpos: "0 < d"
    using d(2) _ _ b4(1) by (rule approx_bounds(3)) simp_all
  txt \<open>the exponent\<close>
  have "\<bar>n / d - b2 / b4\<bar> \<le> (6 + 6 + 1) * pow2 (- 52) * (b2 / b4)"
    using n(2) _ _ b2(1) d(2) _ _ b4(1) by (rule approx_divide) simp_all
  then have "\<bar>n / d - b5\<bar> \<le> 13 * pow2 (- 52) * b5"
    by (simp add: b5_def)
  then have "\<exists>y. f64 (n / d) = Fin y \<and> \<bar>y - b5\<bar> \<le> (13 + 1) * pow2 (- 52) * b5"
    using _ _ b5(1) ranges(9) by (rule approx_round) simp_all
  then obtain x where x: "f64 (n / d) = Fin x" "\<bar>x - b5\<bar> \<le> 14 * pow2 (- 52) * b5"
    by auto
  txt \<open>its exponential\<close>
  have "\<bar>exp x - exp b5\<bar> \<le> (4 * 14) * pow2 (- 52) * exp b5"
    using x(2) _ _ b5pos b5(2) by (rule approx_exp) simp_all
  then have "\<bar>exp x - b6\<bar> \<le> 56 * pow2 (- 52) * b6"
    by (simp add: b6_def)
  then have "\<exists>y. f64 (exp x) = Fin y \<and> \<bar>y - b6\<bar> \<le> (56 + 1) * pow2 (- 52) * b6"
    using _ _ ranges(10,11) by (rule approx_round) simp_all
  then obtain ex where ex: "f64 (exp x) = Fin ex" "\<bar>ex - b6\<bar> \<le> 57 * pow2 (- 52) * b6"
    by auto
  txt \<open>the pressure in pascals\<close>
  have "\<exists>y. f64 b7 = Fin y \<and> \<bar>y - b7\<bar> \<le> (0 + 1) * pow2 (- 52) * b7"
    using exact(6) _ _ ranges(12,13) by (rule approx_round) simp_all
  then obtain pp where pp: "f64 (p * 100) = Fin pp" "\<bar>pp - b7\<bar> \<le> 1 * pow2 (- 52) * b7"
    by (auto simp: b7_def)
  have "\<bar>pp * ex - b7 * b6\<bar> \<le> (1 + 57 + 1) * pow2 (- 52) * (b7 * b6)"
    using pp(2) _ _ b7(1) ex(2) _ _ b6(1) by (rule approx_mult) simp_all
  then have "\<bar>pp * ex - b8\<bar> \<le> 59 * pow2 (- 52) * b8"
    by (simp add: b8_def)
  then have "\<exists>y. f64 (pp * ex) = Fin y \<and> \<bar>y - b8\<bar> \<le> (59 + 1) * pow2 (- 52) * b8"
    using _ _ ranges(14,15) by (rule approx_round) simp_all
  then obtain q where q: "f64 (pp * ex) = Fin q" "\<bar>q - b8\<bar> \<le> 60 * pow2 (- 52) * b8"
    by auto
  txt \<open>and back in hectopascals\<close>
  have "\<bar>q / 100 - b8 / 100\<bar> \<le> (60 + 0 + 1) * pow2 (- 52) * (b8 / 100)"
    using q(2) _ _ b8(1) exact(7) by (rule approx_divide) simp_all
  then have "\<bar>q / 100 - b9\<bar> \<le> 61 * pow2 (- 52) * b9"
    by (simp add: b9_def)
  then have "\<exists>y. f64 (q / 100) = Fin y \<and> \<bar>y - b9\<bar> \<le> (61 + 1) * pow2 (- 52) * b9"
    using _ _ ranges(16,17) by (rule approx_round) simp_all
  then obtain v where v: "f64 (q / 100) = Fin v" "\<bar>v - b9\<bar> \<le> 62 * pow2 (- 52) * b9"
    by auto
  have run: "reduceToMSL (Fin p) (Fin t) (Fin h) = Fin v"
    using dpos
    by (simp add: reduceToMSL_def isnan_def Let_def g(1) m(1) r(1) c(1) gm(1) n(1) k(1) d(1)
        x(1) ex(1) pp(1) q(1) v(1))
  have "barometric p t h = b9"
    by (simp add: barometric_def b9_def b8_def b7_def b6_def b5_def b4_def b3_def b2_def b1_def
        gE_def mE_def rE_def cE_def)
  with run v(2) show ?thesis
    by simp
qed

lemma kelvin_nonzero:
  assumes "- 273 \<le> tv"
  shows "fadd f64 (Fin tv) KELVIN_OFFSET \<noteq> Fin 0"
proof -
  obtain c where c: "KELVIN_OFFSET = Fin c" "273149 / 1000 \<le> c" "c \<le> 273151 / 1000"
    using KELVIN_OFFSET_value by blast
  have "pow2 (- 1022 - int 53 + 1) \<le> 149 / 1000"
    by (simp add: pow2_def)
  also have "\<dots> \<le> \<bar>tv + c\<bar>"
    using assms c(2) by linarith
  finally have "fp_round 53 (- 1022) 1023 (tv + c) \<noteq> Fin 0"
    by (rule fp_round_nonzero) simp
  then show ?thesis
    by (simp add: c(1) f64_def)
qed

text \<open>The spec's formula at 1000 hPa, 15 degrees and the station's 262 m.\<close>

lemma barometric_example:
  "103106 / 100 \<le> barometric 1000 15 262 \<and> barometric 1000 15 262 \<le> 10321 / 10"
proof -
  define q :: real where
    "q = (980665 / 100000) * (289644 / 10000000) * 262 / ((831447 / 100000) * (15 + 27315 / 100))"
  have q: "3106 / 100000 \<le> q" "q \<le> 3107 / 100000"
    by (simp_all add: q_def)
  have "q * q \<le> (3107 / 100000) * (3107 / 100000)"
    using q by (intro mult_mono) simp_all
  then have qq: "q\<^sup>2 \<le> 1 / 1000"
    by (simp add: power2_eq_square)
  have "1 + q \<le> exp q"
    by (rule exp_ge_add_one_self)
  moreover have "exp q \<le> 1 + q + q\<^sup>2"
    using q by (intro exp_bound) simp_all
  ultimately have "103106 / 100000 \<le> exp q" "exp q \<le> 10321 / 10000"
    using q qq by linarith+
  moreover have "barometric 1000 15 262 = 1000 * exp q"
    by (simp add: barometric_def q_def)
  ultimately show ?thesis
    by simp
qed

lemma reduceToMSL_example:
  "\<exists>v. reduceToMSL (Fin 1000) (Fin 15) STATION_ALTITUDE_METERS = Fin v
     \<and> 1031 \<le> v \<and> v \<le> 1033"
proof -
  define B where "B = barometric 1000 15 262"
  have B: "103106 / 100 \<le> B" "B \<le> 10321 / 10"
    using barometric_example by (simp_all add: B_def)
  obtain v where v: "reduceToMSL (Fin 1000) (Fin 15) (Fin 262) = Fin v"
      "\<bar>v - B\<bar> \<le> 62 * pow2 (- 52) * B"
    using reduceToMSL_accuracy [of 1000 15 262] by (auto simp: B_def)
  have "62 * pow2 (- 52) * B \<le> 62 * pow2 (- 52) * (10321 / 10)"
    using B(2) by (intro mult_left_mono) simp_all
  also have "\<dots> \<le> 1 / 100"
    by (simp add: pow2_def)
  finally have "\<bar>v - B\<bar> \<le> 1 / 100"
    using v(2) by linarith
  with B have "1031 \<le> v" "v \<le> 1033"
    by linarith+
  with v(1) show ?thesis
    by (simp add: STATION_ALTITUDE_METERS_def)
qed

text \<open>
  Claim C3, amended. \<open>reduceToMSL\<close> returns NaN whenever the pressure or the temperature is
  NaN, for every altitude. For other inputs it evaluates the formula
  \<open>P * exp (g * M * h / (R * (t + 273.15)))\<close> in binary64 arithmetic, every operation
  rounded: for a pressure of 1 to 2000 hPa, a temperature of -100 to 100 degrees and an
  altitude of 1 to 10000 m the result is finite and within the relative error \<open>62 * 2\<^sup>-\<^sup>5\<^sup>2\<close>
  of the formula's value (at 1000 hPa, 15 degrees and the station's altitude it lies between
  1031 and 1033 hPa). At altitude 0 it returns the station pressure unchanged for every
  finite single-precision pressure and every temperature, infinite ones included, whose
  Kelvin value is not zero.
\<close>

theorem reduceToMSL_double:
  "reduceToMSL NaN t h = NaN
   \<and> reduceToMSL p NaN h = NaN
   \<and> (1 \<le> pv \<and> pv \<le> 2000 \<and> - 100 \<le> tv \<and> tv \<le> 100 \<and> 1 \<le> hv \<and> hv \<le> 10000 \<longrightarrow>
        (\<exists>v. reduceToMSL (Fin pv) (Fin tv) (Fin hv) = Fin v
           \<and> \<bar>v - barometric pv tv hv\<bar> \<le> 62 * pow2 (- 52) * barometric pv tv hv))
   \<and> (\<exists>v. reduceToMSL (Fin 1000) (Fin 15) STATION_ALTITUDE_METERS = Fin v
           \<and> 1031 \<le> v \<and> v \<le> 1033)
   \<and> (t0 \<noteq> NaN \<and> fadd f64 t0 KELVIN_OFFSET \<noteq> Fin 0
        \<and> \<bar>m\<bar> < 2 ^ 24 \<and> - 149 \<le> k \<and> k \<le> 104 \<longrightarrow>
        reduceToMSL (Fin (of_int m * pow2 k)) t0 (Fin 0) = Fin (of_int m * pow2 k))"
proof -
  have "reduceToMSL (Fin (of_int m * pow2 k)) t0 (Fin 0) = Fin (of_int m * pow2 k)"
    if "t0 \<noteq> NaN \<and> fadd f64 t0 KELVIN_OFFSET \<noteq> Fin 0
        \<and> \<bar>m\<bar> < 2 ^ 24 \<and> - 149 \<le> k \<and> k \<le> 104"
    using that float_times_100 [of m k] by (intro reduceToMSL_sea_level) simp_all
  moreover have "\<exists>v. reduceToMSL (Fin pv) (Fin tv) (Fin hv) = Fin v
           \<and> \<bar>v - barometric pv tv hv\<bar> \<le> 62 * pow2 (- 52) * barometric pv tv hv"
    if "1 \<le> pv \<and> pv \<le> 2000 \<and> - 100 \<le> tv \<and> tv \<le> 100 \<and> 1 \<le> hv \<and> hv \<le> 10000"
    using that by (intro reduceToMSL_accuracy) simp_all
  ultimately show ?thesis
    using reduceToMSL_nan [of t h] reduceToMSL_nan(2) [of p h] reduceToMSL_example
    by blast
qed

theorem reduceToMSL_double_witness:
  "reduceToMSL NaN (Fin 15) (Fin 262) = NaN
   \<and> (\<exists>v. reduceToMSL (Fin 1000) (Fin 15) (Fin 262) = Fin v
         \<and> \<bar>v - barometric 1000 15 262\<bar> \<le> 62 * pow2 (- 52) * barometric 1000 15 262)
   \<and> reduceToMSL (Fin 1000) (Fin 15) (Fin 0) = Fin 1000"
proof -
  have side: "Fin 15 \<noteq> NaN \<and> fadd f64 (Fin 15) KELVIN_OFFSET \<noteq> Fin 0
      \<and> \<bar>1000 :: int\<bar> < 2 ^ 24 \<and> - 149 \<le> (0 :: int) \<and> (0 :: int) \<le> 104"
    using kelvin_nonzero [of 15] by simp
  have range: "(1 :: real) \<le> 1000 \<and> (1000 :: real) \<le> 2000 \<and> (- 100 :: real) \<le> 15
      \<and> (15 :: real) \<le> 100 \<and> (1 :: real) \<le> 262 \<and> (262 :: real) \<le> 10000"
    by simp
  from reduceToMSL_double [of "Fin 15" "Fin 262" NaN 1000 15 262 "Fin 15" 1000 0] side range
  show ?thesis
    by (simp add: pow2_def)
qed

text \<open>
  The binary64 value nearest to 900.001 is \<open>7916492516080222 / 2\<^sup>4\<^sup>3\<close>. Converted to pascals
  and back it comes out one unit in the last place lower.
\<close>

lemma pascal_round_trip:
  "f64 (98956156451002775 / 1099511627776) = Fin (6184759778187673 / 68719476736)"
  "f64 (6184759778187673 / 68719476736) = Fin (6184759778187673 / 68719476736)"
  "f64 (6184759778187673 / 6871947673600) = Fin (7916492516080221 / 8796093022208)"
proof -
  have "f64 (98956156451002775 / 1099511627776)
      = Fin (of_int 6184759778187673 * pow2 (16 - int 53 + 1))"
    unfolding f64_def
    by (rule fp_round_eval) (simp_all add: pow2_def round_even_eval [of 6184759778187673])
  then show "f64 (98956156451002775 / 1099511627776) = Fin (6184759778187673 / 68719476736)"
    by (simp add: pow2_def)
  have "f64 (of_int 6184759778187673 * pow2 (- 36)) = Fin (of_int 6184759778187673 * pow2 (- 36))"
    unfolding f64_def by (rule fp_round_exact) (simp_all add: pow2_def)
  then show "f64 (6184759778187673 / 68719476736) = Fin (6184759778187673 / 68719476736)"
    by (simp add: pow2_def)
  have "f64 (6184759778187673 / 6871947673600)
      = Fin (of_int 7916492516080221 * pow2 (9 - int 53 + 1))"
    unfolding f64_def
    by (rule fp_round_eval) (simp_all add: pow2_def round_even_eval [of 7916492516080221])
  then show "f64 (6184759778187673 / 6871947673600) = Fin (7916492516080221 / 8796093022208)"
    by (simp add: pow2_def)
qed

text \<open>
  Where the claim as first stated fails: at -273.15 degrees and altitude 0 the exponent is
  0 / 0 and the result is NaN, not the station pressure; a station pressure of \<open>2\<^sup>1\<^sup>0\<^sup>2\<^sup>0\<close> hPa
  overflows to infinity when converted to pascals, at altitude 0 too; and the binary64
  pressure nearest to 900.001 hPa comes back one unit in the last place lower.
\<close>

theorem reduceToMSL_double_counterexample:
  "fneg KELVIN_OFFSET \<noteq> NaN
   \<and> reduceToMSL (Fin 1000) (fneg KELVIN_OFFSET) (Fin 0) = NaN
   \<and> reduceToMSL (Fin (2 ^ 1020)) (Fin 15) (Fin 0) = PInf
   \<and> reduceToMSL (Fin (7916492516080222 / 2 ^ 43)) (Fin 15) (Fin 0)
       = Fin (7916492516080221 / 2 ^ 43)"
proof -
  obtain c where c: "KELVIN_OFFSET = Fin c"
    using KELVIN_OFFSET_value by blast
  obtain r where r: "UNIV_GAS_CONST = Fin r"
    using UNIV_GAS_CONST_value by blast
  have pa: "f64 (1000 * 100) = Fin 100000"
    using f64_of_int [of 100000] by simp
  have first: "reduceToMSL (Fin 1000) (fneg KELVIN_OFFSET) (Fin 0) = NaN"
    using pa by (simp add: reduceToMSL_def isnan_def Let_def numerator_zero c r f64_def)
  have "pow2 (1023 + 1) \<le> \<bar>2 ^ 1020 * 100 :: real\<bar>"
    by (simp add: pow2_def)
  then have "fp_round 53 (- 1022) 1023 (2 ^ 1020 * 100)
      = (if (0 :: real) < 2 ^ 1020 * 100 then PInf else NInf)"
    by (rule fp_round_overflow) simp_all
  then have over: "f64 (2 ^ 1020 * 100) = PInf"
    by (simp add: f64_def)
  have "fdiv f64 (fmul f64 (fmul f64 G_CONST MOLAR_MASS_AIR) (Fin 0))
          (fmul f64 UNIV_GAS_CONST (fadd f64 (Fin 15) KELVIN_OFFSET)) = Fin 0"
    using kelvin_nonzero [of 15] by (intro exponent_zero) simp_all
  then have second: "reduceToMSL (Fin (2 ^ 1020)) (Fin 15) (Fin 0) = PInf"
      and third: "reduceToMSL (Fin (7916492516080222 / 2 ^ 43)) (Fin 15) (Fin 0)
        = Fin (7916492516080221 / 2 ^ 43)"
    using over by (simp_all add: reduceToMSL_def isnan_def Let_def f64_one pascal_round_trip)
  from first second third show ?thesis
    by (simp add: c)
qed

subsection \<open>The pressure member\<close>

text \<open>
  Rounding to two places: the reported number differs from the value by at most half a
  hundredth, up to the rounding of the two binary64 operations.
\<close>

lemma f64_abs_error:
  assumes "\<bar>x\<bar> \<le> b" "b * pow2 (- 53) \<le> d" "pow2 (- 1075) \<le> d" "b \<le> pow2 1023"
  shows "\<exists>y. f64 x = Fin y \<and> \<bar>y - x\<bar> \<le> d"
proof -
  have "\<bar>x\<bar> \<le> pow2 1023"
    using assms(1,4) by linarith
  then have fin: "f64 x = Fin (rnd 53 (- 1022) x)"
    by (rule f64_finite)
  have "\<bar>x\<bar> * pow2 (- 53) \<le> b * pow2 (- 53)"
    using assms(1) by (intro mult_right_mono) simp_all
  then have "\<bar>x\<bar> * pow2 (- 53) \<le> d"
    using assms(2) by (rule order_trans)
  with assms(3) have "max (\<bar>x\<bar> * pow2 (- int 53)) (pow2 (- 1022 - int 53)) \<le> d"
    by simp
  with rnd_abs_error [of 53 "- 1022" x] have "\<bar>rnd 53 (- 1022) x - x\<bar> \<le> d"
    by (rule order_trans)
  with fin show ?thesis
    by blast
qed

lemma round_places_close:
  assumes "\<bar>x\<bar> \<le> 2 ^ 20"
  shows "\<exists>v. round_places 100 (Fin x) = Fin v \<and> \<bar>v - x\<bar> \<le> 1 / 200 + 1 / 2 ^ 30"
proof -
  have "\<bar>x * 100\<bar> \<le> 2 ^ 20 * 100"
    using assms by (simp add: abs_mult)
  then have "\<exists>y. f64 (x * 100) = Fin y \<and> \<bar>y - x * 100\<bar> \<le> 1 / 2 ^ 26"
    by (rule f64_abs_error) (simp_all add: pow2_def)
  then obtain y where y: "f64 (x * 100) = Fin y" "\<bar>y - x * 100\<bar> \<le> 1 / 2 ^ 26"
    by blast
  define n where "n = c_round y"
  have n: "\<bar>n - y\<bar> \<le> 1 / 2"
    unfolding n_def by (rule c_round_error)
  have "\<bar>y\<bar> \<le> \<bar>x * 100\<bar> + 1 / 2 ^ 26"
    using y(2) by linarith
  moreover have "(1 :: real) / 2 ^ 26 \<le> 1 / 2"
    by simp
  ultimately have "\<bar>n\<bar> \<le> 2 ^ 20 * 100 + 1"
    using \<open>\<bar>x * 100\<bar> \<le> 2 ^ 20 * 100\<close> n by linarith
  then have "\<bar>n / 100\<bar> \<le> 2 ^ 20 + 1"
    by simp
  then have "\<exists>v. f64 (n / 100) = Fin v \<and> \<bar>v - n / 100\<bar> \<le> 1 / 2 ^ 32"
    by (rule f64_abs_error) (simp_all add: pow2_def)
  then obtain v where v: "f64 (n / 100) = Fin v" "\<bar>v - n / 100\<bar> \<le> 1 / 2 ^ 32"
    by blast
  have run: "round_places 100 (Fin x) = Fin v"
    by (simp add: round_places_def y(1) n_def [symmetric] v(1))
  have "\<bar>n - x * 100\<bar> \<le> 1 / 2 + 1 / 2 ^ 26"
    using n y(2) by linarith
  then have "\<bar>n - x * 100\<bar> / 100 \<le> (1 / 2 + 1 / 2 ^ 26) / 100"
    by (rule divide_right_mono) simp
  moreover have "\<bar>n / 100 - x\<bar> = \<bar>n - x * 100\<bar> / 100"
    by (simp add: abs_if field_simps)
  ultimately have "\<bar>n / 100 - x\<bar> \<le> (1 / 2 + 1 / 2 ^ 26) / 100"
    by simp
  with v(2) have "\<bar>v - x\<bar> \<le> 1 / 2 ^ 32 + (1 / 2 + 1 / 2 ^ 26) / 100"
    by linarith
  also have "\<dots> \<le> 1 / 200 + 1 / 2 ^ 30"
    by simp
  finally show ?thesis
    using run by blast
qed

lemma round_places_1000: "round_places 100 (Fin 1000) = Fin 1000"
proof -
  have "f64 (real_of_int 100000) = Fin (real_of_int 100000)"
      "f64 (real_of_int 1000) = Fin (real_of_int 1000)"
    by (rule f64_of_int, simp)+
  moreover have "c_round (real_of_int 100000) = real_of_int 100000"
    by (rule c_round_of_int)
  ultimately show ?thesis
    by (simp add: round_places_def)
qed

lemma round_places_infinite:
  "round_places 100 PInf = PInf" "round_places 100 NInf = NInf"
  by (simp_all add: round_places_def)

lemma payload_pressure_omitted:
  "isnan (reduceToMSL pressure temp STATION_ALTITUDE_METERS) \<Longrightarrow> isnan pressure \<Longrightarrow>
   ''pressure'' \<notin> fst ` set (telemetry_payload temp pressure humidity analogValue avg p)"
  by (auto simp: telemetry_payload_def Let_def)

lemma cycle_without_sensor:
  assumes "currentDeviceMode s = MODE_CONFIGURED" "wifi_connected e" "\<not> bmeSensorOk s"
    and "HttpPost srv mac doc \<in> set (fst (sensorTask_cycle e s))"
  shows "''pressure'' \<notin> fst ` set doc"
proof -
  have "bme_readings e s = (NaN, NaN, NaN)"
    using assms(3) by (simp add: bme_readings_def)
  with cycle_posts [OF assms(1,2,4)] show ?thesis
    by (simp add: payload_pressure_omitted reduceToMSL_nan isnan_def)
qed

text \<open>
  Claim C4. When the reduction yields NaN and the raw station pressure is a number, the
  pressure member is the raw station pressure rounded to two places; when both are NaN
  the record has no pressure key; otherwise the member is the reduced value rounded to two
  places. Rounding to two places moves a value of magnitude at most \<open>2\<^sup>2\<^sup>0\<close> by no more than
  0.005 (and \<open>2\<^sup>-\<^sup>3\<^sup>0\<close> for the binary64 operations) and leaves an infinity as it is. A NaN
  temperature makes the reduction NaN, and in a cycle whose environmental sensor did not
  initialise the posted record has no pressure key.
\<close>

theorem pressure_member:
  "(isnan (reduceToMSL pressure temp STATION_ALTITUDE_METERS) \<and> \<not> isnan pressure \<longrightarrow>
      map_of (telemetry_payload temp pressure humidity analogValue avg p) ''pressure''
        = Some (JNum (round_places 100 pressure)))
   \<and> (isnan (reduceToMSL pressure temp STATION_ALTITUDE_METERS) \<and> isnan pressure \<longrightarrow>
      ''pressure'' \<notin> fst ` set (telemetry_payload temp pressure humidity analogValue avg p))
   \<and> (\<not> isnan (reduceToMSL pressure temp STATION_ALTITUDE_METERS) \<longrightarrow>
      map_of (telemetry_payload temp pressure humidity analogValue avg p) ''pressure''
        = Some (JNum (round_places 100 (reduceToMSL pressure temp STATION_ALTITUDE_METERS))))
   \<and> (\<bar>x\<bar> \<le> 2 ^ 20 \<longrightarrow>
      (\<exists>v. round_places 100 (Fin x) = Fin v \<and> \<bar>v - x\<bar> \<le> 1 / 200 + 1 / 2 ^ 30))
   \<and> round_places 100 PInf = PInf \<and> round_places 100 NInf = NInf
   \<and> (isnan temp \<longrightarrow> isnan (reduceToMSL pressure temp STATION_ALTITUDE_METERS))
   \<and> (currentDeviceMode s = MODE_CONFIGURED \<and> wifi_connected e \<and> \<not> bmeSensorOk s
        \<and> HttpPost srv mac doc \<in> set (fst (sensorTask_cycle e s)) \<longrightarrow>
      ''pressure'' \<notin> fst ` set doc)"
proof -
  have branches: "(isnan (reduceToMSL pressure temp STATION_ALTITUDE_METERS) \<and> \<not> isnan pressure \<longrightarrow>
      map_of (telemetry_payload temp pressure humidity analogValue avg p) ''pressure''
        = Some (JNum (round_places 100 pressure)))
   \<and> (\<not> isnan (reduceToMSL pressure temp STATION_ALTITUDE_METERS) \<longrightarrow>
      map_of (telemetry_payload temp pressure humidity analogValue avg p) ''pressure''
        = Some (JNum (round_places 100 (reduceToMSL pressure temp STATION_ALTITUDE_METERS))))
   \<and> (isnan temp \<longrightarrow> isnan (reduceToMSL pressure temp STATION_ALTITUDE_METERS))"
    by (simp add: payload_pressure Let_def reduceToMSL_def isnan_def)
  from branches payload_pressure_omitted [of pressure temp humidity analogValue avg p]
    cycle_without_sensor [of s e srv mac doc] round_places_close [of x] round_places_infinite
  show ?thesis
    by blast
qed

lemma example_cycle_posts:
  "HttpPost ''192.168.50.200:5000'' ''AA:BB:CC:DD:EE:FF''
      (telemetry_payload NaN NaN NaN 1750 (Fin 0) (precipitationPercentage 4000))
    \<in> set (fst (sensorTask_cycle example_env (boot_state\<lparr>currentDeviceMode := MODE_CONFIGURED\<rparr>)))"
  by (simp add: sensorTask_cycle_def example_env_def boot_state_def Let_def bme_readings_def
      drainAverage_def wind_init_def)

theorem pressure_member_witness:
  "map_of (telemetry_payload NaN (Fin 1000) NaN 1750 (Fin 0) 0) ''pressure''
     = Some (JNum (Fin 1000))
   \<and> ''pressure'' \<notin> fst ` set (telemetry_payload NaN NaN NaN 1750 (Fin 0) 0)
   \<and> (\<exists>v. map_of (telemetry_payload (Fin 15) (Fin 1000) NaN 1750 (Fin 0) 0) ''pressure''
           = Some (JNum (Fin v)) \<and> 1030 \<le> v \<and> v \<le> 1034)
   \<and> ''pressure'' \<notin> fst ` set
        (telemetry_payload NaN NaN NaN 1750 (Fin 0) (precipitationPercentage 4000))"
proof -
  obtain w where w: "reduceToMSL (Fin 1000) (Fin 15) STATION_ALTITUDE_METERS = Fin w"
      "1031 \<le> w" "w \<le> 1033"
    using reduceToMSL_example by blast
  have small: "\<bar>w\<bar> \<le> 2 ^ 20"
    using w(2,3) by simp
  have nan: "isnan (reduceToMSL (Fin 1000) NaN STATION_ALTITUDE_METERS) \<and> \<not> isnan (Fin 1000)"
      "isnan (reduceToMSL NaN NaN STATION_ALTITUDE_METERS) \<and> isnan NaN"
      "\<not> isnan (reduceToMSL (Fin 1000) (Fin 15) STATION_ALTITUDE_METERS)"
    by (simp_all add: reduceToMSL_nan isnan_def w(1))
  have gate: "currentDeviceMode (boot_state\<lparr>currentDeviceMode := MODE_CONFIGURED\<rparr>) = MODE_CONFIGURED
      \<and> wifi_connected example_env
      \<and> \<not> bmeSensorOk (boot_state\<lparr>currentDeviceMode := MODE_CONFIGURED\<rparr>)"
    by (simp add: example_env_def boot_state_def)
  from pressure_member [where pressure = "Fin 1000" and temp = NaN and humidity = NaN
      and analogValue = 1750 and avg = "Fin 0" and p = 0 and x = w
      and s = "boot_state\<lparr>currentDeviceMode := MODE_CONFIGURED\<rparr>" and e = example_env
      and srv = "''192.168.50.200:5000''" and mac = "''AA:BB:CC:DD:EE:FF''"
      and doc = "telemetry_payload NaN NaN NaN 1750 (Fin 0) (precipitationPercentage 4000)"]
    nan(1) gate example_cycle_posts small
  have c1: "map_of (telemetry_payload NaN (Fin 1000) NaN 1750 (Fin 0) 0) ''pressure''
        = Some (JNum (round_places 100 (Fin 1000)))"
    and c4: "''pressure'' \<notin> fst ` set
        (telemetry_payload NaN NaN NaN 1750 (Fin 0) (precipitationPercentage 4000))"
    and c5: "\<exists>v. round_places 100 (Fin w) = Fin v \<and> \<bar>v - w\<bar> \<le> 1 / 200 + 1 / 2 ^ 30"
    by blast+
  from pressure_member [where pressure = NaN and temp = NaN and humidity = NaN
      and analogValue = 1750 and avg = "Fin 0" and p = 0] nan(2)
  have c2: "''pressure'' \<notin> fst ` set (telemetry_payload NaN NaN NaN 1750 (Fin 0) 0)"
    by blast
  from pressure_member [where pressure = "Fin 1000" and temp = "Fin 15" and humidity = NaN
      and analogValue = 1750 and avg = "Fin 0" and p = 0] nan(3)
  have c3: "map_of (telemetry_payload (Fin 15) (Fin 1000) NaN 1750 (Fin 0) 0) ''pressure''
        = Some (JNum (round_places 100 (reduceToMSL (Fin 1000) (Fin 15) STATION_ALTITUDE_METERS)))"
    by blast
  from c5 obtain v where v: "round_places 100 (Fin w) = Fin v" "\<bar>v - w\<bar> \<le> 1 / 200 + 1 / 2 ^ 30"
    by blast
  have "(1 :: real) / 200 + 1 / 2 ^ 30 \<le> 1"
    by simp
  with v(2) w(2,3) have "1030 \<le> v" "v \<le> 1034"
    by linarith+
  with c3 v(1) have "\<exists>v. map_of (telemetry_payload (Fin 15) (Fin 1000) NaN 1750 (Fin 0) 0) ''pressure''
           = Some (JNum (Fin v)) \<and> 1030 \<le> v \<and> v \<le> 1034"
    by (simp add: w(1))
  with c1 c2 c4 show ?thesis
    by (simp add: round_places_1000)
qed

subsection \<open>The gate of the telemetry cycle\<close>

text \<open>
  Claim C8. In a cycle in which the mode is not Configured or the link is not connected,
  the only thing the task does is print the skip message: no ADC or sensor read, no
  semaphore taken, no request sent, and no variable changed (the accumulator is not
  drained).
\<close>

theorem telemetry_gate:
  assumes "\<not> (currentDeviceMode s = MODE_CONFIGURED \<and> wifi_connected e)"
  shows "sensorTask_cycle e s = ([SerialPrintln skip_message], s)"
proof -
  from assms have "(currentDeviceMode s = MODE_CONFIGURED \<and> wifi_connected e) = False"
    by simp
  then show ?thesis
    unfolding sensorTask_cycle_def by (simp only: if_False)
qed

theorem telemetry_gate_witness:
  "sensorTask_cycle example_env boot_state = ([SerialPrintln skip_message], boot_state)
   \<and> sensorTask_cycle (example_env\<lparr>wifi_connected := False\<rparr>)
         (boot_state\<lparr>currentDeviceMode := MODE_CONFIGURED\<rparr>)
       = ([SerialPrintln skip_message], boot_state\<lparr>currentDeviceMode := MODE_CONFIGURED\<rparr>)"
  using telemetry_gate [of boot_state example_env]
    telemetry_gate [of "boot_state\<lparr>currentDeviceMode := MODE_CONFIGURED\<rparr>"
      "example_env\<lparr>wifi_connected := False\<rparr>"]
  by (simp add: boot_state_def)

subsection \<open>The configuration store\<close>

lemmas nvs_keys = NVS_KEY_MODE_def NVS_KEY_SSID_def NVS_KEY_PASS_def NVS_KEY_USER_def
  NVS_KEY_SERVER_def

lemma save_store_holds:
  "store_holds (nvs (saveConfigurationToNVS True s))
     (wifiSSID s) (wifiPass s) (userName s) (serverAddress s)"
  by (simp add: saveConfigurationToNVS_def store_holds_def nvs_keys uint_of_DeviceMode_def)

lemma save_keeps_variables:
  "wifiSSID (saveConfigurationToNVS opened s) = wifiSSID s
   \<and> wifiPass (saveConfigurationToNVS opened s) = wifiPass s
   \<and> userName (saveConfigurationToNVS opened s) = userName s
   \<and> serverAddress (saveConfigurationToNVS opened s) = serverAddress s"
  by (simp add: saveConfigurationToNVS_def)

lemma clear_store_cleared: "store_cleared (nvs (clearConfigurationInNVS True s))"
  by (simp add: clearConfigurationInNVS_def store_cleared_def nvs_keys uint_of_DeviceMode_def)

lemma clear_variables:
  "wifiSSID (clearConfigurationInNVS True s) = []
   \<and> wifiPass (clearConfigurationInNVS True s) = []
   \<and> userName (clearConfigurationInNVS True s) = userName s
   \<and> serverAddress (clearConfigurationInNVS True s) = serverAddress s
   \<and> currentDeviceMode (clearConfigurationInNVS True s) = MODE_UNCONFIGURED"
  by (simp add: clearConfigurationInNVS_def)

lemma clear_not_opened: "clearConfigurationInNVS False s = s"
  by (simp add: clearConfigurationInNVS_def)

lemma load_store_holds:
  assumes "store_holds (nvs t) ssid pass user server" "ssid \<noteq> []"
  shows "fst (loadConfigurationFromNVS True t)
    \<and> wifiSSID (snd (loadConfigurationFromNVS True t)) = ssid
    \<and> wifiPass (snd (loadConfigurationFromNVS True t)) = pass
    \<and> userName (snd (loadConfigurationFromNVS True t)) = user
    \<and> serverAddress (snd (loadConfigurationFromNVS True t)) = server
    \<and> currentDeviceMode (snd (loadConfigurationFromNVS True t)) = MODE_CONFIGURED"
  using assms
  by (simp add: loadConfigurationFromNVS_def store_holds_def getUInt_def getString_def
      DeviceMode_of_uint_def Let_def)

lemma load_unconfigured:
  assumes "DeviceMode_of_uint (getUInt (nvs t) NVS_KEY_MODE 0) = MODE_UNCONFIGURED
    \<or> getString (nvs t) NVS_KEY_SSID [] = []"
  shows "\<not> fst (loadConfigurationFromNVS opened t)"
  using assms
  by (auto simp: loadConfigurationFromNVS_def uint_of_DeviceMode_def Let_def)

lemma load_store_cleared:
  assumes "store_cleared (nvs t)"
  shows "\<not> fst (loadConfigurationFromNVS opened t)"
proof -
  from assms have "DeviceMode_of_uint (getUInt (nvs t) NVS_KEY_MODE 0) = MODE_UNCONFIGURED"
    by (simp add: store_cleared_def getUInt_def DeviceMode_of_uint_def)
  then show ?thesis
    by (simp add: load_unconfigured)
qed

lemma load_not_opened: "loadConfigurationFromNVS False t = (False, t)"
  by (simp add: loadConfigurationFromNVS_def)

lemma example_configured_fields:
  "wifiSSID example_configured = ''home'' \<and> wifiPass example_configured = ''secret''
   \<and> userName example_configured = ''alice''
   \<and> serverAddress example_configured = ''10.0.0.2:5000''
   \<and> currentDeviceMode example_configured = MODE_CONFIGURED
   \<and> clock example_configured = 0
   \<and> store_holds (nvs example_configured) ''home'' ''secret'' ''alice'' ''10.0.0.2:5000''"
  using save_store_holds [of example_connected]
  by (simp add: example_configured_def) (simp add: saveConfigurationToNVS_def example_connected_def boot_state_def)

text \<open>
  Claim C9, amended. If a save that opened the storage ran with a non-empty SSID, a load
  that opens the storage answers true and restores exactly the saved SSID, passphrase,
  user name and server address, with mode Configured. After a clear that opened the
  storage, a load answers false. A load also answers false whenever the stored mode is
  Unconfigured or the stored SSID is empty.
\<close>

theorem configuration_store_round_trip:
  "(wifiSSID s \<noteq> [] \<and> nvs t = nvs (saveConfigurationToNVS True s) \<longrightarrow>
      fst (loadConfigurationFromNVS True t)
      \<and> wifiSSID (snd (loadConfigurationFromNVS True t)) = wifiSSID s
      \<and> wifiPass (snd (loadConfigurationFromNVS True t)) = wifiPass s
      \<and> userName (snd (loadConfigurationFromNVS True t)) = userName s
      \<and> serverAddress (snd (loadConfigurationFromNVS True t)) = serverAddress s
      \<and> currentDeviceMode (snd (loadConfigurationFromNVS True t)) = MODE_CONFIGURED)
   \<and> (nvs t' = nvs (clearConfigurationInNVS True s') \<longrightarrow>
      \<not> fst (loadConfigurationFromNVS opened t'))
   \<and> (DeviceMode_of_uint (getUInt (nvs u) NVS_KEY_MODE 0) = MODE_UNCONFIGURED
        \<or> getString (nvs u) NVS_KEY_SSID [] = [] \<longrightarrow>
      \<not> fst (loadConfigurationFromNVS opened u))"
proof (intro conjI impI)
  assume a: "wifiSSID s \<noteq> [] \<and> nvs t = nvs (saveConfigurationToNVS True s)"
  then have "store_holds (nvs t) (wifiSSID s) (wifiPass s) (userName s) (serverAddress s)"
    by (simp add: save_store_holds)
  from load_store_holds [OF this] a
  show "fst (loadConfigurationFromNVS True t)"
    and "wifiSSID (snd (loadConfigurationFromNVS True t)) = wifiSSID s"
    and "wifiPass (snd (loadConfigurationFromNVS True t)) = wifiPass s"
    and "userName (snd (loadConfigurationFromNVS True t)) = userName s"
    and "serverAddress (snd (loadConfigurationFromNVS True t)) = serverAddress s"
    and "currentDeviceMode (snd (loadConfigurationFromNVS True t)) = MODE_CONFIGURED"
    by simp_all
next
  assume "nvs t' = nvs (clearConfigurationInNVS True s')"
  then have "store_cleared (nvs t')"
    by (simp add: clear_store_cleared)
  then show "\<not> fst (loadConfigurationFromNVS opened t')"
    by (rule load_store_cleared)
next
  assume "DeviceMode_of_uint (getUInt (nvs u) NVS_KEY_MODE 0) = MODE_UNCONFIGURED
        \<or> getString (nvs u) NVS_KEY_SSID [] = []"
  then show "\<not> fst (loadConfigurationFromNVS opened u)"
    by (rule load_unconfigured)
qed

theorem configuration_store_round_trip_witness:
  "fst (loadConfigurationFromNVS True example_configured)
   \<and> wifiSSID (snd (loadConfigurationFromNVS True example_configured)) = ''home''
   \<and> serverAddress (snd (loadConfigurationFromNVS True example_configured)) = ''10.0.0.2:5000''
   \<and> \<not> fst (loadConfigurationFromNVS True (clearConfigurationInNVS True example_configured))
   \<and> \<not> fst (loadConfigurationFromNVS True boot_state)"
  using configuration_store_round_trip [of example_connected example_configured
      "clearConfigurationInNVS True example_configured" example_configured True boot_state]
  by (simp add: example_configured_def [symmetric])
    (simp add: example_connected_def boot_state_def getUInt_def DeviceMode_of_uint_def)

text \<open>
  Where the claim as first stated fails: a clear that could not open the storage leaves
  the configuration in place, so the next load succeeds; and a load that cannot open the
  storage fails although the configuration was saved.
\<close>

theorem configuration_store_round_trip_counterexample:
  "fst (loadConfigurationFromNVS True (clearConfigurationInNVS False example_configured))
   \<and> \<not> fst (loadConfigurationFromNVS False example_configured)"
  using load_store_holds [of example_configured "''home''" "''secret''" "''alice''" "''10.0.0.2:5000''"]
  by (simp add: clear_not_opened load_not_opened example_configured_fields)

subsection \<open>Connectivity transitions\<close>

lemma connectToWiFi_result:
  "fst (connectToWiFi link s) = link (connect_wait link (clock s) (clock s))"
  by (simp add: connectToWiFi_def Let_def)

lemma connectToWiFi_mode:
  "currentDeviceMode (snd (connectToWiFi link s)) =
     (if fst (connectToWiFi link s) then MODE_CONFIGURED else MODE_UNCONFIGURED)"
  by (simp add: connectToWiFi_def Let_def blinkLedError_def delay_def)

lemma connectToWiFi_keeps:
  "wifiSSID (snd (connectToWiFi link s)) = wifiSSID s
   \<and> wifiPass (snd (connectToWiFi link s)) = wifiPass s
   \<and> userName (snd (connectToWiFi link s)) = userName s
   \<and> serverAddress (snd (connectToWiFi link s)) = serverAddress s
   \<and> nvs (snd (connectToWiFi link s)) = nvs s"
  by (simp add: connectToWiFi_def Let_def blinkLedError_def delay_def)

lemma sendMacAddress_keeps:
  "wifiSSID (sendMacAddress link code s) = wifiSSID s
   \<and> wifiPass (sendMacAddress link code s) = wifiPass s
   \<and> userName (sendMacAddress link code s) = userName s
   \<and> serverAddress (sendMacAddress link code s) = serverAddress s
   \<and> nvs (sendMacAddress link code s) = nvs s
   \<and> currentDeviceMode (sendMacAddress link code s) = currentDeviceMode s"
  by (simp add: sendMacAddress_def blinkLedInfo_def blinkLedError_def delay_def Let_def)

lemma revert_to_portal_started:
  "\<exists>s'. revert_to_portal True True s = Continue s'
     \<and> currentDeviceMode s' = MODE_UNCONFIGURED
     \<and> wifiSSID s' = [] \<and> wifiPass s' = []
     \<and> userName s' = userName s \<and> serverAddress s' = serverAddress s
     \<and> store_cleared (nvs s')"
  using clear_store_cleared [of s]
  by (simp add: revert_to_portal_def switchToAPMode_def setupWebServer_def delay_def Let_def
      clear_variables)

lemma revert_to_portal_restart:
  "\<exists>st. revert_to_portal True False s = Restart st \<and> store_cleared st"
  using clear_store_cleared [of s]
  by (simp add: revert_to_portal_def switchToAPMode_def blinkLedError_def delay_def Let_def)

lemma revert_to_portal_not_opened:
  "(ap_started \<longrightarrow>
      (\<exists>s'. revert_to_portal False ap_started s = Continue s'
         \<and> currentDeviceMode s' = MODE_UNCONFIGURED
         \<and> wifiSSID s' = wifiSSID s \<and> wifiPass s' = wifiPass s \<and> nvs s' = nvs s))
   \<and> (\<not> ap_started \<longrightarrow> revert_to_portal False ap_started s = Restart (nvs s))"
  by (simp add: revert_to_portal_def clear_not_opened switchToAPMode_def setupWebServer_def
      blinkLedError_def delay_def Let_def)

text \<open>
  The fallback in one statement: the device goes on in mode Unconfigured, or restarts when
  the access point does not start; the storage is cleared when it opens and left as it was
  when it does not.
\<close>

lemma revert_to_portal_result:
  "case revert_to_portal opened ap_started s of
     Continue s' \<Rightarrow> ap_started \<and> currentDeviceMode s' = MODE_UNCONFIGURED
       \<and> (if opened then store_cleared (nvs s') else nvs s' = nvs s)
   | Restart st \<Rightarrow> \<not> ap_started \<and> (if opened then store_cleared st else st = nvs s)"
proof (cases opened)
  case True
  show ?thesis
  proof (cases ap_started)
    case True
    with \<open>opened\<close> revert_to_portal_started [of s] show ?thesis by auto
  next
    case False
    with \<open>opened\<close> revert_to_portal_restart [of s] show ?thesis by auto
  qed
next
  case False
  with revert_to_portal_not_opened [of ap_started s] show ?thesis
    by (cases ap_started) auto
qed

lemma handleConnect_connected:
  assumes args: "form ''ssid'' \<noteq> None" "form ''pass'' \<noteq> None"
      "form ''username'' \<noteq> None" "form ''serveraddr'' \<noteq> None"
    and up: "link (connect_wait link (clock s) (clock s))"
  shows "\<exists>s'. handleConnect link code opened ap_started form s = Continue s'
     \<and> currentDeviceMode s' = MODE_CONFIGURED
     \<and> wifiSSID s' = arg form ''ssid'' \<and> wifiPass s' = arg form ''pass''
     \<and> userName s' = arg form ''username'' \<and> serverAddress s' = arg form ''serveraddr''
     \<and> (if opened
         then store_holds (nvs s') (arg form ''ssid'') (arg form ''pass'')
                (arg form ''username'') (arg form ''serveraddr'')
         else nvs s' = nvs s)"
proof -
  define s1 where "s1 = stopWebServerAndMDNS (s\<lparr>wifiSSID := arg form ''ssid'',
      wifiPass := arg form ''pass'', userName := arg form ''username'',
      serverAddress := arg form ''serveraddr''\<rparr>)"
  define s2 where "s2 = snd (connectToWiFi link s1)"
  have clk: "clock s1 = clock s"
    by (simp add: s1_def stopWebServerAndMDNS_def)
  have ok: "fst (connectToWiFi link s1)"
    using up by (simp add: connectToWiFi_result clk)
  have run: "handleConnect link code opened ap_started form s
      = Continue (sendMacAddress link code (saveConfigurationToNVS opened s2))"
    using args ok
    by (auto simp: handleConnect_def Let_def case_prod_beta s1_def [symmetric] s2_def)
  have v: "wifiSSID s2 = arg form ''ssid'' \<and> wifiPass s2 = arg form ''pass''
      \<and> userName s2 = arg form ''username'' \<and> serverAddress s2 = arg form ''serveraddr''"
    by (simp add: s2_def connectToWiFi_keeps) (simp add: s1_def stopWebServerAndMDNS_def)
  have kept: "nvs s2 = nvs s"
    by (simp add: s2_def connectToWiFi_keeps) (simp add: s1_def stopWebServerAndMDNS_def)
  have mode2: "currentDeviceMode s2 = MODE_CONFIGURED"
    using ok by (simp add: s2_def connectToWiFi_mode)
  have store: "if opened
      then store_holds (nvs (saveConfigurationToNVS opened s2)) (arg form ''ssid'')
             (arg form ''pass'') (arg form ''username'') (arg form ''serveraddr'')
      else nvs (saveConfigurationToNVS opened s2) = nvs s"
  proof (cases opened)
    case True
    with save_store_holds [of s2] v show ?thesis by simp
  next
    case False
    with kept show ?thesis by (simp add: saveConfigurationToNVS_def)
  qed
  have "currentDeviceMode (saveConfigurationToNVS opened s2) = MODE_CONFIGURED"
    using mode2 by (simp add: saveConfigurationToNVS_def)
  with store show ?thesis
    using run v by (cases opened) (simp_all add: sendMacAddress_keeps save_keeps_variables)
qed

lemma handleConnect_failed:
  assumes args: "form ''ssid'' \<noteq> None" "form ''pass'' \<noteq> None"
      "form ''username'' \<noteq> None" "form ''serveraddr'' \<noteq> None"
    and down: "\<not> link (connect_wait link (clock s) (clock s))"
  shows "case handleConnect link code opened ap_started form s of
     Continue s' \<Rightarrow> ap_started \<and> currentDeviceMode s' = MODE_UNCONFIGURED
       \<and> (if opened then store_cleared (nvs s') else nvs s' = nvs s)
   | Restart st \<Rightarrow> \<not> ap_started \<and> (if opened then store_cleared st else st = nvs s)"
proof -
  define s1 where "s1 = stopWebServerAndMDNS (s\<lparr>wifiSSID := arg form ''ssid'',
      wifiPass := arg form ''pass'', userName := arg form ''username'',
      serverAddress := arg form ''serveraddr''\<rparr>)"
  define s2 where "s2 = snd (connectToWiFi link s1)"
  have clk: "clock s1 = clock s"
    by (simp add: s1_def stopWebServerAndMDNS_def)
  have kept: "nvs s2 = nvs s"
    by (simp add: s2_def connectToWiFi_keeps) (simp add: s1_def stopWebServerAndMDNS_def)
  have "\<not> fst (connectToWiFi link s1)"
    using down by (simp add: connectToWiFi_result clk)
  then have "handleConnect link code opened ap_started form s
      = revert_to_portal opened ap_started s2"
    using args
    by (auto simp: handleConnect_def Let_def case_prod_beta s1_def [symmetric] s2_def)
  then show ?thesis
    using revert_to_portal_result [where opened = opened and ap_started = ap_started and s = s2]
    by (auto simp: kept split: outcome.splits)
qed

lemma reconnect_failed:
  assumes "currentDeviceMode s = MODE_CONFIGURED" "\<not> link (clock s)"
    and "\<not> link (reconnect_wait link (clock s) (clock s))"
  shows "case checkAndReconnectWiFi link opened ap_started s of
     Continue (ok, s') \<Rightarrow> \<not> ok \<and> ap_started \<and> currentDeviceMode s' = MODE_UNCONFIGURED
       \<and> (if opened then store_cleared (nvs s') else nvs s' = nvs s)
   | Restart st \<Rightarrow> \<not> ap_started \<and> (if opened then store_cleared st else st = nvs s)"
proof -
  define s1 where "s1 = blinkLedError (s\<lparr>clock := reconnect_wait link (clock s) (clock s)\<rparr>)"
  have kept: "nvs s1 = nvs s"
    by (simp add: s1_def blinkLedError_def delay_def)
  have run: "checkAndReconnectWiFi link opened ap_started s =
      (case revert_to_portal opened ap_started s1 of
         Restart st \<Rightarrow> Restart st | Continue s' \<Rightarrow> Continue (False, s'))"
    using assms by (simp add: checkAndReconnectWiFi_def Let_def s1_def)
  show ?thesis
    using revert_to_portal_result [where opened = opened and ap_started = ap_started and s = s1]
    unfolding run by (auto simp: kept split: outcome.splits)
qed

lemma reconnect_succeeded:
  assumes "currentDeviceMode s = MODE_CONFIGURED" "\<not> link (clock s)"
    and "link (reconnect_wait link (clock s) (clock s))"
  shows "\<exists>s'. checkAndReconnectWiFi link opened ap_started s = Continue (True, s')
     \<and> currentDeviceMode s' = MODE_CONFIGURED
     \<and> wifiSSID s' = wifiSSID s \<and> wifiPass s' = wifiPass s
     \<and> userName s' = userName s \<and> serverAddress s' = serverAddress s
     \<and> nvs s' = nvs s"
  using assms by (simp add: checkAndReconnectWiFi_def Let_def)

text \<open>
  The bounded wait: started at \<open>start\<close>, the connection loop stops less than 15.25 s
  later, and when it stops without a link the 15 s have run out.
\<close>

lemma connect_wait_bounded:
  "unat (now - start) \<le> 15249 \<Longrightarrow> unat (connect_wait link start now - start) \<le> 15249"
proof (induction link start now rule: connect_wait.induct)
  case (1 link start now)
  show ?case
  proof (cases "\<not> link now \<and> now - start < 15000")
    case True
    then have small: "unat (now - start) < 15000"
      by (simp add: word_less_nat_alt)
    have eq: "now + 250 - start = (now - start) + 250"
      by simp
    have "unat ((now - start) + 250) = (unat (now - start) + unat (250 :: 32 word)) mod 2 ^ 32"
      by (simp only: unat_word_ariths len_of_numeral_defs) simp
    with small have "unat (now + 250 - start) \<le> 15249"
      unfolding eq by simp
    with True "1.IH" show ?thesis
      by (subst connect_wait.simps) simp
  next
    case False
    with "1.prems" show ?thesis
      by (subst connect_wait.simps) auto
  qed
qed

lemma connect_wait_gives_up:
  "\<not> link (connect_wait link start now) \<Longrightarrow> 15000 \<le> connect_wait link start now - start"
proof (induction link start now rule: connect_wait.induct)
  case (1 link start now)
  show ?case
  proof (cases "\<not> link now \<and> now - start < 15000")
    case True
    with "1.prems" have "\<not> link (connect_wait link start (now + 250))"
      by (subst (asm) connect_wait.simps) simp
    with True "1.IH" show ?thesis
      by (subst connect_wait.simps) simp
  next
    case False
    then have stop: "connect_wait link start now = now"
      by (subst connect_wait.simps) auto
    with "1.prems" False show ?thesis
      by (auto simp: not_less)
  qed
qed

text \<open>The reconnection loop, likewise, within 10.25 s.\<close>

lemma reconnect_wait_bounded:
  "unat (now - start) \<le> 10249 \<Longrightarrow> unat (reconnect_wait link start now - start) \<le> 10249"
proof (induction link start now rule: reconnect_wait.induct)
  case (1 link start now)
  show ?case
  proof (cases "\<not> link now \<and> now - start < 10000")
    case True
    then have small: "unat (now - start) < 10000"
      by (simp add: word_less_nat_alt)
    have eq: "now + 250 - start = (now - start) + 250"
      by simp
    have "unat ((now - start) + 250) = (unat (now - start) + unat (250 :: 32 word)) mod 2 ^ 32"
      by (simp only: unat_word_ariths len_of_numeral_defs) simp
    with small have "unat (now + 250 - start) \<le> 10249"
      unfolding eq by simp
    with True "1.IH" show ?thesis
      by (subst reconnect_wait.simps) simp
  next
    case False
    with "1.prems" show ?thesis
      by (subst reconnect_wait.simps) auto
  qed
qed

lemma reconnect_wait_gives_up:
  "\<not> link (reconnect_wait link start now) \<Longrightarrow> 10000 \<le> reconnect_wait link start now - start"
proof (induction link start now rule: reconnect_wait.induct)
  case (1 link start now)
  show ?case
  proof (cases "\<not> link now \<and> now - start < 10000")
    case True
    with "1.prems" have "\<not> link (reconnect_wait link start (now + 250))"
      by (subst (asm) reconnect_wait.simps) simp
    with True "1.IH" show ?thesis
      by (subst reconnect_wait.simps) simp
  next
    case False
    then have stop: "reconnect_wait link start now = now"
      by (subst reconnect_wait.simps) auto
    with "1.prems" False show ?thesis
      by (auto simp: not_less)
  qed
qed

text \<open>
  Claim C2, amended. A submitted form whose connection attempt succeeds within the bounded
  wait puts the device in mode Configured with the submitted credentials in memory; the
  credentials are persisted with mode Configured when the storage opens, and the storage
  is left as it was when it does not. A failed attempt leaves the device in mode
  Unconfigured when the access point starts and restarts it when the access point does not
  start; either way the stored configuration is cleared when the storage opens and left as
  it was when it does not. From Configured, link loss followed by a failed bounded
  reconnect does the same; a successful reconnect keeps mode Configured and touches neither
  the credentials in memory nor the storage.
\<close>

theorem connectivity_transitions:
  "(form ''ssid'' \<noteq> None \<and> form ''pass'' \<noteq> None \<and> form ''username'' \<noteq> None
      \<and> form ''serveraddr'' \<noteq> None \<and> link (connect_wait link (clock s) (clock s)) \<longrightarrow>
      (\<exists>s'. handleConnect link code opened ap_started form s = Continue s'
         \<and> currentDeviceMode s' = MODE_CONFIGURED
         \<and> wifiSSID s' = arg form ''ssid'' \<and> wifiPass s' = arg form ''pass''
         \<and> userName s' = arg form ''username'' \<and> serverAddress s' = arg form ''serveraddr''
         \<and> (if opened
             then store_holds (nvs s') (arg form ''ssid'') (arg form ''pass'')
                    (arg form ''username'') (arg form ''serveraddr'')
             else nvs s' = nvs s)))
   \<and> (form ''ssid'' \<noteq> None \<and> form ''pass'' \<noteq> None \<and> form ''username'' \<noteq> None
      \<and> form ''serveraddr'' \<noteq> None \<and> \<not> link (connect_wait link (clock s) (clock s)) \<longrightarrow>
      (case handleConnect link code opened ap_started form s of
         Continue s' \<Rightarrow> ap_started \<and> currentDeviceMode s' = MODE_UNCONFIGURED
           \<and> (if opened then store_cleared (nvs s') else nvs s' = nvs s)
       | Restart st \<Rightarrow> \<not> ap_started \<and> (if opened then store_cleared st else st = nvs s)))
   \<and> (currentDeviceMode c = MODE_CONFIGURED \<and> \<not> link (clock c)
      \<and> \<not> link (reconnect_wait link (clock c) (clock c)) \<longrightarrow>
      (case checkAndReconnectWiFi link opened ap_started c of
         Continue (ok, s') \<Rightarrow> \<not> ok \<and> ap_started \<and> currentDeviceMode s' = MODE_UNCONFIGURED
           \<and> (if opened then store_cleared (nvs s') else nvs s' = nvs c)
       | Restart st \<Rightarrow> \<not> ap_started \<and> (if opened then store_cleared st else st = nvs c)))
   \<and> (currentDeviceMode c = MODE_CONFIGURED \<and> \<not> link (clock c)
      \<and> link (reconnect_wait link (clock c) (clock c)) \<longrightarrow>
      (\<exists>s'. checkAndReconnectWiFi link opened ap_started c = Continue (True, s')
         \<and> currentDeviceMode s' = MODE_CONFIGURED
         \<and> wifiSSID s' = wifiSSID c \<and> wifiPass s' = wifiPass c
         \<and> userName s' = userName c \<and> serverAddress s' = serverAddress c
         \<and> nvs s' = nvs c))"
proof (intro conjI impI)
  assume "form ''ssid'' \<noteq> None \<and> form ''pass'' \<noteq> None \<and> form ''username'' \<noteq> None
      \<and> form ''serveraddr'' \<noteq> None \<and> link (connect_wait link (clock s) (clock s))"
  then show "\<exists>s'. handleConnect link code opened ap_started form s = Continue s'
         \<and> currentDeviceMode s' = MODE_CONFIGURED
         \<and> wifiSSID s' = arg form ''ssid'' \<and> wifiPass s' = arg form ''pass''
         \<and> userName s' = arg form ''username'' \<and> serverAddress s' = arg form ''serveraddr''
         \<and> (if opened
             then store_holds (nvs s') (arg form ''ssid'') (arg form ''pass'')
                    (arg form ''username'') (arg form ''serveraddr'')
             else nvs s' = nvs s)"
    by (intro handleConnect_connected) simp_all
next
  assume "form ''ssid'' \<noteq> None \<and> form ''pass'' \<noteq> None \<and> form ''username'' \<noteq> None
      \<and> form ''serveraddr'' \<noteq> None \<and> \<not> link (connect_wait link (clock s) (clock s))"
  then show "case handleConnect link code opened ap_started form s of
         Continue s' \<Rightarrow> ap_started \<and> currentDeviceMode s' = MODE_UNCONFIGURED
           \<and> (if opened then store_cleared (nvs s') else nvs s' = nvs s)
       | Restart st \<Rightarrow> \<not> ap_started \<and> (if opened then store_cleared st else st = nvs s)"
    by (intro handleConnect_failed) simp_all
next
  assume "currentDeviceMode c = MODE_CONFIGURED \<and> \<not> link (clock c)
      \<and> \<not> link (reconnect_wait link (clock c) (clock c))"
  then show "case checkAndReconnectWiFi link opened ap_started c of
         Continue (ok, s') \<Rightarrow> \<not> ok \<and> ap_started \<and> currentDeviceMode s' = MODE_UNCONFIGURED
           \<and> (if opened then store_cleared (nvs s') else nvs s' = nvs c)
       | Restart st \<Rightarrow> \<not> ap_started \<and> (if opened then store_cleared st else st = nvs c)"
    by (intro reconnect_failed) simp_all
next
  assume "currentDeviceMode c = MODE_CONFIGURED \<and> \<not> link (clock c)
      \<and> link (reconnect_wait link (clock c) (clock c))"
  then show "\<exists>s'. checkAndReconnectWiFi link opened ap_started c = Continue (True, s')
         \<and> currentDeviceMode s' = MODE_CONFIGURED
         \<and> wifiSSID s' = wifiSSID c \<and> wifiPass s' = wifiPass c
         \<and> userName s' = userName c \<and> serverAddress s' = serverAddress c
         \<and> nvs s' = nvs c"
    by (intro reconnect_succeeded) simp_all
qed

lemma example_form_args:
  "example_form ''ssid'' = Some ''home'' \<and> example_form ''pass'' = Some ''secret''
   \<and> example_form ''username'' = Some ''alice''
   \<and> example_form ''serveraddr'' = Some ''10.0.0.2:5000''"
  by (simp add: example_form_def)

lemma link_late_reconnects: "link_late (reconnect_wait link_late 0 0)"
proof -
  have "reconnect_wait link_late 0 0 = reconnect_wait link_late 0 250"
    by (subst reconnect_wait.simps) (simp add: link_late_def)
  also have "\<dots> = 250"
    by (subst reconnect_wait.simps) (simp add: link_late_def)
  finally show ?thesis
    by (simp add: link_late_def)
qed

theorem connectivity_transitions_witness:
  "(case handleConnect link_up 200 True True example_form boot_state of
      Continue s' \<Rightarrow> currentDeviceMode s' = MODE_CONFIGURED
        \<and> store_holds (nvs s') ''home'' ''secret'' ''alice'' ''10.0.0.2:5000''
    | Restart st \<Rightarrow> False)
   \<and> (case handleConnect link_up 200 False True example_form boot_state of
      Continue s' \<Rightarrow> currentDeviceMode s' = MODE_CONFIGURED \<and> wifiSSID s' = ''home''
        \<and> nvs s' = nvs boot_state
    | Restart st \<Rightarrow> False)
   \<and> (case handleConnect link_down 200 True True example_form boot_state of
      Continue s' \<Rightarrow> currentDeviceMode s' = MODE_UNCONFIGURED \<and> store_cleared (nvs s')
    | Restart st \<Rightarrow> False)
   \<and> (case handleConnect link_down 200 True False example_form boot_state of
      Continue s' \<Rightarrow> False
    | Restart st \<Rightarrow> store_cleared st)
   \<and> (case checkAndReconnectWiFi link_down True True example_configured of
      Continue (ok, s') \<Rightarrow>
        \<not> ok \<and> currentDeviceMode s' = MODE_UNCONFIGURED \<and> store_cleared (nvs s')
    | Restart st \<Rightarrow> False)
   \<and> (case checkAndReconnectWiFi link_down False True example_configured of
      Continue (ok, s') \<Rightarrow>
        \<not> ok \<and> currentDeviceMode s' = MODE_UNCONFIGURED \<and> nvs s' = nvs example_configured
    | Restart st \<Rightarrow> False)
   \<and> (case checkAndReconnectWiFi link_late True True example_configured of
      Continue (ok, s') \<Rightarrow> ok \<and> currentDeviceMode s' = MODE_CONFIGURED
        \<and> wifiSSID s' = ''home'' \<and> nvs s' = nvs example_configured
    | Restart st \<Rightarrow> False)"
proof -
  note args = example_form_args
  have up: "link_up (connect_wait link_up (clock boot_state) (clock boot_state))"
    by (simp add: link_up_def)
  have down: "\<not> link_down (connect_wait link_down (clock boot_state) (clock boot_state))"
    by (simp add: link_down_def)
  have lost: "currentDeviceMode example_configured = MODE_CONFIGURED
      \<and> \<not> link_down (clock example_configured)
      \<and> \<not> link_down (reconnect_wait link_down (clock example_configured)
            (clock example_configured))"
    by (simp add: link_down_def example_configured_fields)
  have returns: "currentDeviceMode example_configured = MODE_CONFIGURED
      \<and> \<not> link_late (clock example_configured)
      \<and> link_late (reconnect_wait link_late (clock example_configured)
            (clock example_configured))"
    using link_late_reconnects by (simp add: example_configured_fields) (simp add: link_late_def)
  from connectivity_transitions [of example_form link_up boot_state 200 True True
      example_configured] args up
  have c1: "case handleConnect link_up 200 True True example_form boot_state of
      Continue s' \<Rightarrow> currentDeviceMode s' = MODE_CONFIGURED
        \<and> store_holds (nvs s') ''home'' ''secret'' ''alice'' ''10.0.0.2:5000''
    | Restart st \<Rightarrow> False"
    by (auto simp: arg_def)
  from connectivity_transitions [of example_form link_up boot_state 200 False True
      example_configured] args up
  have c2: "case handleConnect link_up 200 False True example_form boot_state of
      Continue s' \<Rightarrow> currentDeviceMode s' = MODE_CONFIGURED \<and> wifiSSID s' = ''home''
        \<and> nvs s' = nvs boot_state
    | Restart st \<Rightarrow> False"
    by (auto simp: arg_def)
  from connectivity_transitions [of example_form link_down boot_state 200 True True
      example_configured] args down lost
  have c35: "(case handleConnect link_down 200 True True example_form boot_state of
      Continue s' \<Rightarrow> currentDeviceMode s' = MODE_UNCONFIGURED \<and> store_cleared (nvs s')
    | Restart st \<Rightarrow> False)
   \<and> (case checkAndReconnectWiFi link_down True True example_configured of
      Continue (ok, s') \<Rightarrow>
        \<not> ok \<and> currentDeviceMode s' = MODE_UNCONFIGURED \<and> store_cleared (nvs s')
    | Restart st \<Rightarrow> False)"
    by (auto split: outcome.splits)
  from connectivity_transitions [of example_form link_down boot_state 200 True False
      example_configured] args down
  have c4: "case handleConnect link_down 200 True False example_form boot_state of
      Continue s' \<Rightarrow> False
    | Restart st \<Rightarrow> store_cleared st"
    by (auto split: outcome.splits)
  from connectivity_transitions [of example_form link_down boot_state 200 False True
      example_configured] lost
  have c6: "case checkAndReconnectWiFi link_down False True example_configured of
      Continue (ok, s') \<Rightarrow>
        \<not> ok \<and> currentDeviceMode s' = MODE_UNCONFIGURED \<and> nvs s' = nvs example_configured
    | Restart st \<Rightarrow> False"
    by (auto split: outcome.splits)
  from connectivity_transitions [of example_form link_late boot_state 200 True True
      example_configured] returns
  have c7: "case checkAndReconnectWiFi link_late True True example_configured of
      Continue (ok, s') \<Rightarrow> ok \<and> currentDeviceMode s' = MODE_CONFIGURED
        \<and> wifiSSID s' = ''home'' \<and> nvs s' = nvs example_configured
    | Restart st \<Rightarrow> False"
    by (auto simp: example_configured_fields)
  from c1 c2 c35 c4 c6 c7 show ?thesis
    by simp
qed

lemma link_up_connects: "connect_wait link_up start start = start"
  by (subst connect_wait.simps) (simp add: link_up_def)

text \<open>
  Where the claim as first stated fails: when the storage does not open, a successful
  connection leaves the device Configured with nothing persisted, and a failed reconnect
  leaves it Unconfigured with the configuration still stored.
\<close>

theorem connectivity_transitions_counterexample:
  "(case handleConnect link_up 200 False True example_form boot_state of
      Continue s' \<Rightarrow> currentDeviceMode s' = MODE_CONFIGURED
        \<and> nvs s' NVS_KEY_MODE = None \<and> nvs s' NVS_KEY_SSID = None
    | Restart st \<Rightarrow> False)
   \<and> (case checkAndReconnectWiFi link_down False True example_configured of
      Continue (ok, s') \<Rightarrow> \<not> ok \<and> currentDeviceMode s' = MODE_UNCONFIGURED
        \<and> store_holds (nvs s') ''home'' ''secret'' ''alice'' ''10.0.0.2:5000''
    | Restart st \<Rightarrow> False)"
proof -
  have "handleConnect link_up 200 False True example_form boot_state
      = Continue (sendMacAddress link_up 200 (saveConfigurationToNVS False
          (snd (connectToWiFi link_up (stopWebServerAndMDNS
            (boot_state\<lparr>wifiSSID := ''home'', wifiPass := ''secret'', userName := ''alice'',
               serverAddress := ''10.0.0.2:5000''\<rparr>))))))"
    by (simp add: handleConnect_def example_form_args arg_def case_prod_beta
        connectToWiFi_result link_up_def)
  moreover have "checkAndReconnectWiFi link_down False True example_configured
      = Continue (False, setupWebServer
          ((delay 100 ((blinkLedError (example_configured
              \<lparr>clock := reconnect_wait link_down 0 0\<rparr>))\<lparr>radio := RADIO_OFF\<rparr>))
            \<lparr>radio := RADIO_AP,
              lastDataSendTime := reconnect_wait link_down 0 0 + 900 + 100,
              currentDeviceMode := MODE_UNCONFIGURED\<rparr>))"
    by (simp add: checkAndReconnectWiFi_def example_configured_fields link_down_def Let_def
        revert_to_portal_def clear_not_opened switchToAPMode_def blinkLedError_def delay_def)
  ultimately show ?thesis
    using example_configured_fields
    by (simp add: sendMacAddress_keeps connectToWiFi_keeps connectToWiFi_mode
        connectToWiFi_result link_up_def saveConfigurationToNVS_def stopWebServerAndMDNS_def
        boot_state_def setupWebServer_def blinkLedError_def delay_def)
qed

subsection \<open>Falling back to the portal\<close>

text \<open>
  Claim C7, amended. Whenever the device reverts to Unconfigured and the storage opens,
  the persisted configuration is erased and the SSID and the passphrase in memory are
  cleared; the user name and the server address in memory keep their values. (When the
  access point does not start the device restarts over the erased storage.)
\<close>

theorem revert_clears_sensitive_variables:
  "(\<exists>s'. revert_to_portal True True s = Continue s'
      \<and> currentDeviceMode s' = MODE_UNCONFIGURED
      \<and> wifiSSID s' = [] \<and> wifiPass s' = []
      \<and> userName s' = userName s \<and> serverAddress s' = serverAddress s
      \<and> store_cleared (nvs s'))
   \<and> (\<exists>st. revert_to_portal True False s = Restart st \<and> store_cleared st)"
  using revert_to_portal_started [of s] revert_to_portal_restart [of s]
  by simp

text \<open>
  Where the claim as first stated fails: after the fallback the user name and the server
  address are still in memory; and when the storage does not open, so are the SSID and
  the passphrase, and the configuration is still stored.
\<close>

theorem revert_clears_sensitive_variables_counterexample:
  "(case revert_to_portal True True example_configured of
      Continue s' \<Rightarrow> currentDeviceMode s' = MODE_UNCONFIGURED
        \<and> userName s' = ''alice'' \<and> serverAddress s' = ''10.0.0.2:5000''
    | Restart st \<Rightarrow> False)
   \<and> (case revert_to_portal False True example_configured of
      Continue s' \<Rightarrow> currentDeviceMode s' = MODE_UNCONFIGURED
        \<and> wifiSSID s' = ''home'' \<and> wifiPass s' = ''secret''
        \<and> store_holds (nvs s') ''home'' ''secret'' ''alice'' ''10.0.0.2:5000''
    | Restart st \<Rightarrow> False)"
proof -
  have "case revert_to_portal True True example_configured of
      Continue s' \<Rightarrow> currentDeviceMode s' = MODE_UNCONFIGURED
        \<and> userName s' = ''alice'' \<and> serverAddress s' = ''10.0.0.2:5000''
    | Restart st \<Rightarrow> False"
    using revert_to_portal_started [of example_configured]
    by (auto simp: example_configured_fields)
  moreover have "case revert_to_portal False True example_configured of
      Continue s' \<Rightarrow> currentDeviceMode s' = MODE_UNCONFIGURED
        \<and> wifiSSID s' = ''home'' \<and> wifiPass s' = ''secret''
        \<and> store_holds (nvs s') ''home'' ''secret'' ''alice'' ''10.0.0.2:5000''
    | Restart st \<Rightarrow> False"
    using example_configured_fields
    by (simp add: revert_to_portal_def clear_not_opened switchToAPMode_def setupWebServer_def
        delay_def Let_def)
  ultimately show ?thesis
    by simp
qed

text \<open>Every fallback of the firmware is that sequence.\<close>

lemma fallback_paths:
  "currentDeviceMode s = MODE_CONFIGURED \<Longrightarrow>
     button_pressed opened ap_started s = revert_to_portal opened ap_started (delay 50 s)"
  "\<not> fst (loadConfigurationFromNVS opened_load s) \<Longrightarrow>
     startup link code opened_load opened ap_started s
       = revert_to_portal opened ap_started (snd (loadConfigurationFromNVS opened_load s))"
  by (simp_all add: button_pressed_def startup_def Let_def delay_def case_prod_beta)

end
